theory Spec2Isabelle
  imports Main "HOL-Library.Word" "HOL-Library.AList" "HOL-Library.Multiset"
begin

section \<open>The graph assembler of routedns (cmd/routedns/main.go)\<close>

text \<open>
  The file embeds the functions of \<^verbatim>\<open>cmd/routedns/main.go\<close>: \<^verbatim>\<open>start\<close>,
  \<^verbatim>\<open>instantiateGroup\<close>, \<^verbatim>\<open>instantiateRouter\<close>, \<^verbatim>\<open>newBlocklistDB\<close> and
  \<^verbatim>\<open>newIPBlocklistDB\<close>. Conventions:
  \<^item> a Go \<^verbatim>\<open>map[string]T\<close> that is only read by key is a HOL map; a Go map that is
    ranged over is an association list, whose order is the order in which \<^verbatim>\<open>range\<close>
    happens to produce the entries (Go leaves that order unspecified, so every
    statement is made for all lists);
  \<^item> an \<^verbatim>\<open>error\<close> return is the left summand of a sum; a run-time panic is an error
    value of its own (\<open>IndexOutOfRange\<close>), never silently a result;
  \<^item> the functions of package \<^verbatim>\<open>rdns\<close>, of the standard library and of the other files
    of package \<^verbatim>\<open>main\<close> are parameters, collected in the records \<open>stages\<close>,
    \<open>frontends\<close> and \<open>loader\<close>; the objects they return are values of type variables.
\<close>

subsection \<open>Errors\<close>

text \<open>
  One constructor for each \<^verbatim>\<open>fmt.Errorf\<close>/\<^verbatim>\<open>errors.New\<close> of main.go, carrying the
  arguments of the format string; \<open>External\<close> is an error value made outside main.go
  (its message) and returned as it is.
\<close>

datatype error =
    External string
  | InvalidLogLevel "32 word"
      \<comment> \<open>\<^verbatim>\<open>invalid log level: %d\<close>\<close>
  | BootstrapFailed error
      \<comment> \<open>\<^verbatim>\<open>failed to instantiate bootstrap-resolver: %w\<close>\<close>
  | DuplicateResolverId string
      \<comment> \<open>\<^verbatim>\<open>group resolver with duplicate id '%s'\<close>\<close>
  | ResolverFailed string error
      \<comment> \<open>\<^verbatim>\<open>failed to instantiate resolver %q : %s\<close>\<close>
  | DuplicateName string
      \<comment> \<open>\<^verbatim>\<open>duplicate name: %s\<close>\<close>
  | UnableToResolveDependencies
      \<comment> \<open>\<^verbatim>\<open>unable to resolve dependencies\<close>\<close>
  | ListenerMissingResolver string string
      \<comment> \<open>\<^verbatim>\<open>listener '%s' references non-existant resolver, group or router '%s'\<close>\<close>
  | TrustedProxyFailed string string error
      \<comment> \<open>\<^verbatim>\<open>listener '%s' trusted-proxy '%s': %v\<close>\<close>
  | UnsupportedProtocol string string
      \<comment> \<open>\<^verbatim>\<open>unsupported protocol '%s' for listener '%s'\<close>\<close>
  | GroupMissingResolver string string
      \<comment> \<open>\<^verbatim>\<open>group '%s' references non-existant resolver or group '%s'\<close>\<close>
  | OnlyOneResolver string string
      \<comment> \<open>\<^verbatim>\<open>type <kind> only supports one resolver in '%s'\<close>: the kind, the id\<close>
  | StaticBlocklistWithSource string string
      \<comment> \<open>\<^verbatim>\<open>static blocklist can't be used with '<option>' in '%s'\<close>: the option, the id\<close>
  | StaticAllowlistWithSource string
      \<comment> \<open>\<^verbatim>\<open>static allowlist can't be used with 'source' in '%s'\<close>\<close>
  | InGroup string error
      \<comment> \<open>\<^verbatim>\<open>%s: %w\<close>\<close>
  | UnsupportedECSOp string
      \<comment> \<open>\<^verbatim>\<open>unsupported ecs-modifier operation '%s'\<close>\<close>
  | UnsupportedEDNS0Op string
      \<comment> \<open>\<^verbatim>\<open>unsupported edns0-modifier operation '%s'\<close>\<close>
  | UnsupportedGroupType string string
      \<comment> \<open>\<^verbatim>\<open>unsupported group type '%s' for group '%s'\<close>\<close>
  | RouterMissingResolver string string
      \<comment> \<open>\<^verbatim>\<open>router '%s' references non-existant resolver or group '%s'\<close>\<close>
  | RouteFailed string error
      \<comment> \<open>\<^verbatim>\<open>failure parsing routes for router '%s' : %s\<close>\<close>
  | UnsupportedScheme string string
      \<comment> \<open>\<^verbatim>\<open>unsupported scheme '%s' in '%s'\<close>\<close>
  | UnsupportedFormat string
      \<comment> \<open>\<^verbatim>\<open>unsupported format '%s'\<close>\<close>
  | IndexOutOfRange nat nat
      \<comment> \<open>run-time panic \<^verbatim>\<open>index out of range [i] with length n\<close>: the process
          crashes, no error is returned\<close>

fun is_panic :: "error \<Rightarrow> bool" where
  "is_panic (IndexOutOfRange i n) = True"
| "is_panic e = False"

definition and_then :: "error + 'a \<Rightarrow> ('a \<Rightarrow> error + 'b) \<Rightarrow> error + 'b" where
  "and_then m f = (case m of Inl e \<Rightarrow> Inl e | Inr x \<Rightarrow> f x)"

text \<open>\<^verbatim>\<open>if err != nil { return err }\<close> after a call into another package.\<close>

definition ext :: "string + 'a \<Rightarrow> error + 'a" where
  "ext m = (case m of Inl msg \<Rightarrow> Inl (External msg) | Inr x \<Rightarrow> Inr x)"

text \<open>\<^verbatim>\<open>xs[i]\<close> on a slice: Go panics out of range.\<close>

definition index :: "'a list \<Rightarrow> nat \<Rightarrow> error + 'a" where
  "index xs i = (if i < length xs then Inr (xs ! i) else Inl (IndexOutOfRange i (length xs)))"

subsection \<open>Package rdns, as main.go uses it\<close>

text \<open>
  \<^verbatim>\<open>time.Duration\<close> is an \<^verbatim>\<open>int64\<close> count of nanoseconds; the conversions and
  products of main.go wrap around at 64 bits.
\<close>

type_synonym Duration = "64 word"

definition Second :: Duration where
  "Second = 1000000000"

definition Minute :: Duration where
  "Minute = 60 * Second"

text \<open>The option structs that main.go fills in, field by field.\<close>

record FailBackOptions =
  ResetAfter :: Duration

record RandomOptions =
  ResetAfter :: Duration

record HTTPLoaderOptions =
  CacheDir :: string

record ReplaceOperation =
  From :: string
  To :: string

record TTLModifierOptions =
  MinTTL :: "32 word"
  MaxTTL :: "32 word"

record CacheOptions =
  GCPeriod :: Duration
  Capacity :: "64 word"
  NegativeTTL :: "32 word"

record StaticResolverOptions =
  Answer :: "string list"
  NS :: "string list"
  Extra :: "string list"
  RCode :: "64 word"

record ResponseCollapsOptions =
  NullRCode :: "64 word"

text \<open>
  A field of interface type that a struct literal leaves out, or that is read from the
  resolver map at a key that is absent, is \<^verbatim>\<open>nil\<close>: \<open>None\<close>.
\<close>

record ('r, 'db) BlocklistOptions =
  BlocklistResolver :: "'r option"
  BlocklistDB :: 'db
  BlocklistRefresh :: Duration
  AllowListResolver :: "'r option"
  AllowlistDB :: "'db option"
  AllowlistRefresh :: Duration

record ('r, 'ipdb) ResponseBlocklistIPOptions =
  BlocklistResolver :: "'r option"
  BlocklistDB :: 'ipdb
  BlocklistRefresh :: Duration
  Filter :: bool

record ('r, 'db) ResponseBlocklistNameOptions =
  BlocklistResolver :: "'r option"
  BlocklistDB :: 'db
  BlocklistRefresh :: Duration

record ('r, 'ipdb) ClientBlocklistOptions =
  BlocklistResolver :: "'r option"
  BlocklistDB :: 'ipdb
  BlocklistRefresh :: Duration

record 'r RateLimiterOptions =
  Requests :: "64 word"
  Window :: "64 word"
  Prefix4 :: "8 word"
  Prefix6 :: "8 word"
  LimitResolver :: "'r option"

text \<open>
  Loaders and modifier functions are built by constructors that take their arguments and
  cannot fail; each is the term of its constructor. A \<^verbatim>\<open>var f\<close> that no case assigns
  stays \<^verbatim>\<open>nil\<close>: \<open>None\<close>.
\<close>

datatype BlocklistLoader =
    NewStaticLoader "string list"
  | NewHTTPLoader string HTTPLoaderOptions
  | NewFileLoader string

datatype ECSModifierFunc =
    ECSModifierAdd "8 word list" "8 word" "8 word"
  | ECSModifierDelete
  | ECSModifierPrivacy "8 word" "8 word"

datatype EDNS0ModifierFunc =
    EDNS0ModifierAdd "16 word" "8 word list"
  | EDNS0ModifierDelete "16 word"

text \<open>\<^verbatim>\<open>url.Parse\<close> returns a \<^verbatim>\<open>*url.URL\<close>, of which main.go reads the scheme.\<close>

record URL =
  Scheme :: string

text \<open>
  The constructors of resolvers, routes and blocklist databases, and \<^verbatim>\<open>url.Parse\<close>.
  A Go function that returns \<^verbatim>\<open>(T, error)\<close> returns \<open>string + T\<close> here, the string being
  the message of the error. \<open>Route_Invert\<close> and \<open>Router_Add\<close> are the methods
  \<^verbatim>\<open>(*route).Invert\<close> and \<^verbatim>\<open>(*Router).Add\<close>, which update their receiver; a router is
  a resolver.
\<close>

record ('r, 'db, 'ipdb, 'rt) stages =
  url_Parse :: "string \<Rightarrow> string + URL"
  NewRoundRobin :: "string \<Rightarrow> 'r list \<Rightarrow> 'r"
  NewFailRotate :: "string \<Rightarrow> 'r list \<Rightarrow> 'r"
  NewFailBack :: "string \<Rightarrow> FailBackOptions \<Rightarrow> 'r list \<Rightarrow> 'r"
  NewRandom :: "string \<Rightarrow> RandomOptions \<Rightarrow> 'r list \<Rightarrow> 'r"
  NewBlocklist :: "string \<Rightarrow> 'r \<Rightarrow> ('r, 'db) BlocklistOptions \<Rightarrow> string + 'r"
  NewReplace :: "string \<Rightarrow> 'r \<Rightarrow> ReplaceOperation list \<Rightarrow> string + 'r"
  NewTTLModifier :: "string \<Rightarrow> 'r \<Rightarrow> TTLModifierOptions \<Rightarrow> 'r"
  NewECSModifier :: "string \<Rightarrow> 'r \<Rightarrow> ECSModifierFunc option \<Rightarrow> string + 'r"
  NewEDNS0Modifier :: "string \<Rightarrow> 'r \<Rightarrow> EDNS0ModifierFunc option \<Rightarrow> string + 'r"
  NewCache :: "string \<Rightarrow> 'r \<Rightarrow> CacheOptions \<Rightarrow> 'r"
  NewResponseBlocklistIP ::
    "string \<Rightarrow> 'r \<Rightarrow> ('r, 'ipdb) ResponseBlocklistIPOptions \<Rightarrow> string + 'r"
  NewResponseBlocklistName ::
    "string \<Rightarrow> 'r \<Rightarrow> ('r, 'db) ResponseBlocklistNameOptions \<Rightarrow> string + 'r"
  NewClientBlocklist :: "string \<Rightarrow> 'r \<Rightarrow> ('r, 'ipdb) ClientBlocklistOptions \<Rightarrow> string + 'r"
  NewStaticResolver :: "string \<Rightarrow> StaticResolverOptions \<Rightarrow> string + 'r"
  NewResponseMinimize :: "string \<Rightarrow> 'r \<Rightarrow> 'r"
  NewResponseCollapse :: "string \<Rightarrow> 'r \<Rightarrow> ResponseCollapsOptions \<Rightarrow> 'r"
  NewDropResolver :: "string \<Rightarrow> 'r"
  NewRateLimiter :: "string \<Rightarrow> 'r \<Rightarrow> 'r RateLimiterOptions \<Rightarrow> 'r"
  NewRouter :: "string \<Rightarrow> 'r"
  NewRoute :: "string \<Rightarrow> string \<Rightarrow> string list \<Rightarrow> string \<Rightarrow> 'r \<Rightarrow> string + 'rt"
  Route_Invert :: "'rt \<Rightarrow> bool \<Rightarrow> 'rt"
  Router_Add :: "'r \<Rightarrow> 'rt \<Rightarrow> 'r"
  NewRegexpDB :: "BlocklistLoader \<Rightarrow> string + 'db"
  NewDomainDB :: "BlocklistLoader \<Rightarrow> string + 'db"
  NewHostsDB :: "BlocklistLoader \<Rightarrow> string + 'db"
  NewMultiDB :: "'db list \<Rightarrow> string + 'db"
  NewCidrDB :: "BlocklistLoader \<Rightarrow> string + 'ipdb"
  NewGeoIPDB :: "BlocklistLoader \<Rightarrow> string \<Rightarrow> string + 'ipdb"
  NewMultiIPDB :: "'ipdb list \<Rightarrow> string + 'ipdb"

text \<open>The listeners, their option structs and what builds their arguments.\<close>

record 'net ListenOptions =
  AllowedNet :: "'net list"

record ('tls, 'net) AdminListenerOptions =
  TLSConfig :: 'tls
  ListenOptions :: "'net ListenOptions"
  Transport :: string

record ('tls, 'net) DoTListenerOptions =
  TLSConfig :: 'tls
  ListenOptions :: "'net ListenOptions"

record ('dtls, 'net) DTLSListenerOptions =
  DTLSConfig :: 'dtls
  ListenOptions :: "'net ListenOptions"

record ('tls, 'net) DoHListenerOptions =
  TLSConfig :: 'tls
  ListenOptions :: "'net ListenOptions"
  Transport :: string
  HTTPProxyNet :: "'net option"

record ('tls, 'net) DoQListenerOptions =
  TLSConfig :: 'tls
  ListenOptions :: "'net ListenOptions"

text \<open>
  \<open>parseCIDRList\<close> is a function of package main that main.go does not define;
  \<open>net_ParseCIDR\<close> is \<^verbatim>\<open>net.ParseCIDR\<close>, of which main.go keeps the network. A listener
  built over a resolver that is absent from the resolver map gets \<^verbatim>\<open>nil\<close>: \<open>None\<close>.
\<close>

record ('r, 'net, 'tls, 'dtls, 'ln) frontends =
  parseCIDRList :: "string list \<Rightarrow> string + 'net list"
  net_ParseCIDR :: "string \<Rightarrow> string + 'net"
  TLSServerConfig :: "string \<Rightarrow> string \<Rightarrow> string \<Rightarrow> bool \<Rightarrow> string + 'tls"
  DTLSServerConfig :: "string \<Rightarrow> string \<Rightarrow> string \<Rightarrow> bool \<Rightarrow> string + 'dtls"
  NewDNSListener :: "string \<Rightarrow> string \<Rightarrow> string \<Rightarrow> 'net ListenOptions \<Rightarrow> 'r option \<Rightarrow> 'ln"
  NewAdminListener :: "string \<Rightarrow> string \<Rightarrow> ('tls, 'net) AdminListenerOptions \<Rightarrow> string + 'ln"
  NewDoTListener :: "string \<Rightarrow> string \<Rightarrow> ('tls, 'net) DoTListenerOptions \<Rightarrow> 'r option \<Rightarrow> 'ln"
  NewDTLSListener ::
    "string \<Rightarrow> string \<Rightarrow> ('dtls, 'net) DTLSListenerOptions \<Rightarrow> 'r option \<Rightarrow> 'ln"
  NewDoHListener ::
    "string \<Rightarrow> string \<Rightarrow> ('tls, 'net) DoHListenerOptions \<Rightarrow> 'r option \<Rightarrow> string + 'ln"
  NewQUICListener :: "string \<Rightarrow> string \<Rightarrow> ('tls, 'net) DoQListenerOptions \<Rightarrow> 'r option \<Rightarrow> 'ln"

subsection \<open>The configuration\<close>

text \<open>
  Modelled from the spec: the struct declarations of \<^verbatim>\<open>config.go\<close> (\<^verbatim>\<open>config\<close>,
  \<^verbatim>\<open>resolver\<close>, \<^verbatim>\<open>group\<close>, \<^verbatim>\<open>list\<close>, \<^verbatim>\<open>router\<close>, \<^verbatim>\<open>route\<close>,
  \<^verbatim>\<open>listener\<close>) are missing. The spec gives the schema: top-level keys
  bootstrap-resolver, resolvers, groups, routers, listeners, each map keying an id to its
  definition. The records hold the fields main.go reads, under the names it reads them by.
  The four maps are ranged over, so they are association lists.
\<close>

record options =
  logLevel :: "32 word"

record resolver =
  Address :: string
  Protocol :: string

record list_cfg =
  Format :: string
  Source :: string
  CacheDir :: string

record group =
  Resolvers :: "string list"
  Type :: string
  Replace :: "ReplaceOperation list"
  TTLMin :: "32 word"
  TTLMax :: "32 word"
  ECSOp :: string
  ECSAddress :: "8 word list"
  ECSPrefix4 :: "8 word"
  ECSPrefix6 :: "8 word"
  EDNS0Op :: string
  EDNS0Code :: "16 word"
  EDNS0Data :: "8 word list"
  GCPeriod :: "64 word"
  CacheSize :: "64 word"
  CacheNegativeTTL :: "32 word"
  Blocklist :: "string list"
  Source :: string
  Format :: string
  Refresh :: "64 word"
  BlockListResolver :: string
  BlocklistFormat :: string
  BlocklistRefresh :: "64 word"
  BlocklistSource :: "list_cfg list"
  AllowListResolver :: string
  Allowlist :: "string list"
  AllowlistRefresh :: "64 word"
  AllowlistSource :: "list_cfg list"
  LocationDB :: string
  Filter :: bool
  Answer :: "string list"
  NS :: "string list"
  Extra :: "string list"
  RCode :: "64 word"
  NullRCode :: "64 word"
  Requests :: "64 word"
  Window :: "64 word"
  Prefix4 :: "8 word"
  Prefix6 :: "8 word"
  LimitResolver :: string

record route =
  Type :: string
  Types :: "string list"
  Class :: string
  Name :: string
  Source :: string
  Invert :: bool
  Resolver :: string

record router =
  Routes :: "route list"

record frontend =
  HTTPProxyNet :: string

record listener =
  Address :: string
  Protocol :: string
  Transport :: string
  Resolver :: string
  CA :: string
  ServerKey :: string
  ServerCrt :: string
  MutualTLS :: bool
  AllowedNet :: "string list"
  Frontend :: frontend

record config =
  BootstrapResolver :: resolver
  Resolvers :: "(string \<times> resolver) list"
  Groups :: "(string \<times> group) list"
  Routers :: "(string \<times> router) list"
  Listeners :: "(string \<times> listener) list"

text \<open>
  \<open>loadConfig\<close> and \<open>resolverFromConfig\<close> are functions of package main that main.go
  calls and does not define.
\<close>

record 'r loader =
  loadConfig :: "string list \<Rightarrow> string + config"
  resolverFromConfig :: "string \<Rightarrow> resolver \<Rightarrow> string + 'r"

subsection \<open>newBlocklistDB and newIPBlocklistDB\<close>

definition newBlocklistDB ::
  "('r, 'db, 'ipdb, 'rt) stages \<Rightarrow> list_cfg \<Rightarrow> string list \<Rightarrow> error + 'db" where
  "newBlocklistDB R l rules =
     and_then (ext (url_Parse R (list_cfg.Source l))) (\<lambda>loc.
     and_then
       (if rules \<noteq> [] then Inr (NewStaticLoader rules)
        else if Scheme loc = ''http'' \<or> Scheme loc = ''https'' then
          Inr (NewHTTPLoader (list_cfg.Source l)
                 \<lparr>HTTPLoaderOptions.CacheDir = list_cfg.CacheDir l\<rparr>)
        else if Scheme loc = [] then Inr (NewFileLoader (list_cfg.Source l))
        else Inl (UnsupportedScheme (Scheme loc) (list_cfg.Source l)))
       (\<lambda>loader.
          if list_cfg.Format l = ''regexp'' \<or> list_cfg.Format l = [] then
            ext (NewRegexpDB R loader)
          else if list_cfg.Format l = ''domain'' then ext (NewDomainDB R loader)
          else if list_cfg.Format l = ''hosts'' then ext (NewHostsDB R loader)
          else Inl (UnsupportedFormat (list_cfg.Format l))))"

definition newIPBlocklistDB ::
  "('r, 'db, 'ipdb, 'rt) stages \<Rightarrow> list_cfg \<Rightarrow> string \<Rightarrow> string list \<Rightarrow> error + 'ipdb" where
  "newIPBlocklistDB R l locationDB rules =
     and_then (ext (url_Parse R (list_cfg.Source l))) (\<lambda>loc.
     and_then
       (if rules \<noteq> [] then Inr (NewStaticLoader rules)
        else if Scheme loc = ''http'' \<or> Scheme loc = ''https'' then
          Inr (NewHTTPLoader (list_cfg.Source l)
                 \<lparr>HTTPLoaderOptions.CacheDir = list_cfg.CacheDir l\<rparr>)
        else if Scheme loc = [] then Inr (NewFileLoader (list_cfg.Source l))
        else Inl (UnsupportedScheme (Scheme loc) (list_cfg.Source l)))
       (\<lambda>loader.
          if list_cfg.Format l = ''cidr'' \<or> list_cfg.Format l = [] then
            ext (NewCidrDB R loader)
          else if list_cfg.Format l = ''location'' then ext (NewGeoIPDB R loader locationDB)
          else Inl (UnsupportedFormat (list_cfg.Format l))))"

subsection \<open>instantiateGroup\<close>

text \<open>The first loop of instantiateGroup: the children, looked up in the resolver map.\<close>

fun group_resolvers ::
  "string \<Rightarrow> string list \<Rightarrow> (string \<rightharpoonup> 'r) \<Rightarrow> 'r list \<Rightarrow> error + 'r list" where
  "group_resolvers id' [] resolvers gr = Inr gr"
| "group_resolvers id' (rid # rids) resolvers gr =
     (case resolvers rid of
        None \<Rightarrow> Inl (GroupMissingResolver id' rid)
      | Some resolver \<Rightarrow> group_resolvers id' rids resolvers (gr @ [resolver]))"

text \<open>
  The loop \<^verbatim>\<open>for _, s := range sources { db, err := new(s); ... dbs = append(dbs, db) }\<close>
  that five cases run over \<^verbatim>\<open>g.BlocklistSource\<close> or \<^verbatim>\<open>g.AllowlistSource\<close>.
\<close>

fun source_dbs ::
  "(list_cfg \<Rightarrow> error + 'd) \<Rightarrow> string \<Rightarrow> list_cfg list \<Rightarrow> 'd list \<Rightarrow> error + 'd list" where
  "source_dbs new id' [] dbs = Inr dbs"
| "source_dbs new id' (s # sources) dbs =
     (case new s of
        Inl err \<Rightarrow> Inl (InGroup id' err)
      | Inr db \<Rightarrow> source_dbs new id' sources (dbs @ [db]))"

text \<open>
  The block \<^verbatim>\<open>if len(rules) > 0 { newBlocklistDB(list{Format: g.BlocklistFormat}, rules) }
  else { ...; rdns.NewMultiDB(dbs...) }\<close> of the cases blocklist-v2 (twice) and
  response-blocklist-name, and its IP twin of response-blocklist-ip and client-blocklist.
\<close>

definition name_db ::
  "('r, 'db, 'ipdb, 'rt) stages \<Rightarrow> string \<Rightarrow> group \<Rightarrow> string list \<Rightarrow> list_cfg list
     \<Rightarrow> error + 'db" where
  "name_db R id' g rules sources =
     (if rules \<noteq> [] then
        newBlocklistDB R
          \<lparr>list_cfg.Format = BlocklistFormat g, list_cfg.Source = [], list_cfg.CacheDir = []\<rparr>
          rules
      else
        and_then (source_dbs (\<lambda>s. newBlocklistDB R s []) id' sources [])
          (\<lambda>dbs. ext (NewMultiDB R dbs)))"

definition ip_db ::
  "('r, 'db, 'ipdb, 'rt) stages \<Rightarrow> string \<Rightarrow> group \<Rightarrow> error + 'ipdb" where
  "ip_db R id' g =
     (if Blocklist g \<noteq> [] then
        newIPBlocklistDB R
          \<lparr>list_cfg.Format = BlocklistFormat g, list_cfg.Source = [], list_cfg.CacheDir = []\<rparr>
          (LocationDB g) (Blocklist g)
      else
        and_then
          (source_dbs (\<lambda>s. newIPBlocklistDB R s (LocationDB g) []) id' (BlocklistSource g) [])
          (\<lambda>dbs. ext (NewMultiIPDB R dbs)))"

text \<open>The cases of the switch on \<^verbatim>\<open>g.Type\<close> that are longer than a line.\<close>

definition case_blocklist ::
  "('r, 'db, 'ipdb, 'rt) stages \<Rightarrow> string \<Rightarrow> group \<Rightarrow> 'r list \<Rightarrow> (string \<rightharpoonup> 'r)
     \<Rightarrow> error + (string \<rightharpoonup> 'r)" where
  "case_blocklist R id' g gr resolvers =
     (if length gr \<noteq> 1 then Inl (OnlyOneResolver ''blocklist'' id')
      else if Blocklist g \<noteq> [] \<and> group.Source g \<noteq> [] then
        Inl (StaticBlocklistWithSource ''source'' id')
      else
        and_then
          (newBlocklistDB R
             \<lparr>list_cfg.Format = group.Format g, list_cfg.Source = group.Source g,
                list_cfg.CacheDir = []\<rparr>
             (Blocklist g)) (\<lambda>blocklistDB.
        and_then (index gr 0) (\<lambda>child.
        and_then
          (ext (NewBlocklist R id' child
             \<lparr>BlocklistOptions.BlocklistResolver = None,
                BlocklistOptions.BlocklistDB = blocklistDB,
                BlocklistOptions.BlocklistRefresh = Refresh g * Second,
                BlocklistOptions.AllowListResolver = None,
                BlocklistOptions.AllowlistDB = None,
                BlocklistOptions.AllowlistRefresh = 0\<rparr>))
          (\<lambda>r. Inr (resolvers(id' \<mapsto> r))))))"

definition case_blocklist_v2 ::
  "('r, 'db, 'ipdb, 'rt) stages \<Rightarrow> string \<Rightarrow> group \<Rightarrow> 'r list \<Rightarrow> (string \<rightharpoonup> 'r)
     \<Rightarrow> error + (string \<rightharpoonup> 'r)" where
  "case_blocklist_v2 R id' g gr resolvers =
     (if length gr \<noteq> 1 then Inl (OnlyOneResolver ''blocklist-v2'' id')
      else if Blocklist g \<noteq> [] \<and> BlocklistSource g \<noteq> [] then
        Inl (StaticBlocklistWithSource ''source'' id')
      else if Allowlist g \<noteq> [] \<and> AllowlistSource g \<noteq> [] then
        Inl (StaticAllowlistWithSource id')
      else
        and_then (name_db R id' g (Blocklist g) (BlocklistSource g)) (\<lambda>blocklistDB.
        and_then (name_db R id' g (Allowlist g) (AllowlistSource g)) (\<lambda>allowlistDB.
        and_then (index gr 0) (\<lambda>child.
        and_then
          (ext (NewBlocklist R id' child
             \<lparr>BlocklistOptions.BlocklistResolver = resolvers (BlockListResolver g),
                BlocklistOptions.BlocklistDB = blocklistDB,
                BlocklistOptions.BlocklistRefresh = group.BlocklistRefresh g * Second,
                BlocklistOptions.AllowListResolver = resolvers (group.AllowListResolver g),
                BlocklistOptions.AllowlistDB = Some allowlistDB,
                BlocklistOptions.AllowlistRefresh = group.AllowlistRefresh g * Second\<rparr>))
          (\<lambda>r. Inr (resolvers(id' \<mapsto> r)))))))"

definition case_replace ::
  "('r, 'db, 'ipdb, 'rt) stages \<Rightarrow> string \<Rightarrow> group \<Rightarrow> 'r list \<Rightarrow> (string \<rightharpoonup> 'r)
     \<Rightarrow> error + (string \<rightharpoonup> 'r)" where
  "case_replace R id' g gr resolvers =
     (if length gr \<noteq> 1 then Inl (OnlyOneResolver ''replace'' id')
      else
        and_then (index gr 0) (\<lambda>child.
        and_then (ext (NewReplace R id' child (Replace g)))
          (\<lambda>r. Inr (resolvers(id' \<mapsto> r)))))"

definition case_ttl_modifier ::
  "('r, 'db, 'ipdb, 'rt) stages \<Rightarrow> string \<Rightarrow> group \<Rightarrow> 'r list \<Rightarrow> (string \<rightharpoonup> 'r)
     \<Rightarrow> error + (string \<rightharpoonup> 'r)" where
  "case_ttl_modifier R id' g gr resolvers =
     (if length gr \<noteq> 1 then Inl (OnlyOneResolver ''ttl-modifier'' id')
      else
        and_then (index gr 0) (\<lambda>child.
          Inr (resolvers(id' \<mapsto>
            NewTTLModifier R id' child \<lparr>MinTTL = TTLMin g, MaxTTL = TTLMax g\<rparr>))))"

definition case_ecs_modifier ::
  "('r, 'db, 'ipdb, 'rt) stages \<Rightarrow> string \<Rightarrow> group \<Rightarrow> 'r list \<Rightarrow> (string \<rightharpoonup> 'r)
     \<Rightarrow> error + (string \<rightharpoonup> 'r)" where
  "case_ecs_modifier R id' g gr resolvers =
     (if length gr \<noteq> 1 then Inl (OnlyOneResolver ''ecs-modifier'' id')
      else
        and_then
          (if ECSOp g = ''add'' then
             Inr (Some (ECSModifierAdd (ECSAddress g) (ECSPrefix4 g) (ECSPrefix6 g)))
           else if ECSOp g = ''delete'' then Inr (Some ECSModifierDelete)
           else if ECSOp g = ''privacy'' then
             Inr (Some (ECSModifierPrivacy (ECSPrefix4 g) (ECSPrefix6 g)))
           else if ECSOp g = [] then Inr None
           else Inl (UnsupportedECSOp (ECSOp g))) (\<lambda>f.
        and_then (index gr 0) (\<lambda>child.
        and_then (ext (NewECSModifier R id' child f))
          (\<lambda>r. Inr (resolvers(id' \<mapsto> r))))))"

definition case_edns0_modifier ::
  "('r, 'db, 'ipdb, 'rt) stages \<Rightarrow> string \<Rightarrow> group \<Rightarrow> 'r list \<Rightarrow> (string \<rightharpoonup> 'r)
     \<Rightarrow> error + (string \<rightharpoonup> 'r)" where
  "case_edns0_modifier R id' g gr resolvers =
     (if length gr \<noteq> 1 then Inl (OnlyOneResolver ''edns0-modifier'' id')
      else
        and_then
          (if EDNS0Op g = ''add'' then
             Inr (Some (EDNS0ModifierAdd (EDNS0Code g) (EDNS0Data g)))
           else if EDNS0Op g = ''delete'' then Inr (Some (EDNS0ModifierDelete (EDNS0Code g)))
           else if EDNS0Op g = [] then Inr None
           else Inl (UnsupportedEDNS0Op (EDNS0Op g))) (\<lambda>f.
        and_then (index gr 0) (\<lambda>child.
        and_then (ext (NewEDNS0Modifier R id' child f))
          (\<lambda>r. Inr (resolvers(id' \<mapsto> r))))))"

text \<open>The case cache has no check of \<^verbatim>\<open>len(gr)\<close> before \<^verbatim>\<open>gr[0]\<close>.\<close>

definition case_cache ::
  "('r, 'db, 'ipdb, 'rt) stages \<Rightarrow> string \<Rightarrow> group \<Rightarrow> 'r list \<Rightarrow> (string \<rightharpoonup> 'r)
     \<Rightarrow> error + (string \<rightharpoonup> 'r)" where
  "case_cache R id' g gr resolvers =
     and_then (index gr 0) (\<lambda>child.
       Inr (resolvers(id' \<mapsto>
         NewCache R id' child
           \<lparr>CacheOptions.GCPeriod = group.GCPeriod g * Second,
              CacheOptions.Capacity = CacheSize g,
              CacheOptions.NegativeTTL = CacheNegativeTTL g\<rparr>)))"

definition case_response_blocklist_ip ::
  "('r, 'db, 'ipdb, 'rt) stages \<Rightarrow> string \<Rightarrow> group \<Rightarrow> 'r list \<Rightarrow> (string \<rightharpoonup> 'r)
     \<Rightarrow> error + (string \<rightharpoonup> 'r)" where
  "case_response_blocklist_ip R id' g gr resolvers =
     (if length gr \<noteq> 1 then Inl (OnlyOneResolver ''response-blocklist-ip'' id')
      else if Blocklist g \<noteq> [] \<and> BlocklistSource g \<noteq> [] then
        Inl (StaticBlocklistWithSource ''blocklist-source'' id')
      else
        and_then (ip_db R id' g) (\<lambda>blocklistDB.
        and_then (index gr 0) (\<lambda>child.
        and_then
          (ext (NewResponseBlocklistIP R id' child
             \<lparr>ResponseBlocklistIPOptions.BlocklistResolver = resolvers (BlockListResolver g),
                ResponseBlocklistIPOptions.BlocklistDB = blocklistDB,
                ResponseBlocklistIPOptions.BlocklistRefresh = group.BlocklistRefresh g * Second,
                ResponseBlocklistIPOptions.Filter = group.Filter g\<rparr>))
          (\<lambda>r. Inr (resolvers(id' \<mapsto> r))))))"

definition case_response_blocklist_name ::
  "('r, 'db, 'ipdb, 'rt) stages \<Rightarrow> string \<Rightarrow> group \<Rightarrow> 'r list \<Rightarrow> (string \<rightharpoonup> 'r)
     \<Rightarrow> error + (string \<rightharpoonup> 'r)" where
  "case_response_blocklist_name R id' g gr resolvers =
     (if length gr \<noteq> 1 then Inl (OnlyOneResolver ''response-blocklist-name'' id')
      else if Blocklist g \<noteq> [] \<and> BlocklistSource g \<noteq> [] then
        Inl (StaticBlocklistWithSource ''blocklist-source'' id')
      else
        and_then (name_db R id' g (Blocklist g) (BlocklistSource g)) (\<lambda>blocklistDB.
        and_then (index gr 0) (\<lambda>child.
        and_then
          (ext (NewResponseBlocklistName R id' child
             \<lparr>ResponseBlocklistNameOptions.BlocklistResolver = resolvers (BlockListResolver g),
                ResponseBlocklistNameOptions.BlocklistDB = blocklistDB,
                ResponseBlocklistNameOptions.BlocklistRefresh =
                  group.BlocklistRefresh g * Second\<rparr>))
          (\<lambda>r. Inr (resolvers(id' \<mapsto> r))))))"

definition case_client_blocklist ::
  "('r, 'db, 'ipdb, 'rt) stages \<Rightarrow> string \<Rightarrow> group \<Rightarrow> 'r list \<Rightarrow> (string \<rightharpoonup> 'r)
     \<Rightarrow> error + (string \<rightharpoonup> 'r)" where
  "case_client_blocklist R id' g gr resolvers =
     (if length gr \<noteq> 1 then Inl (OnlyOneResolver ''client-blocklist'' id')
      else if Blocklist g \<noteq> [] \<and> BlocklistSource g \<noteq> [] then
        Inl (StaticBlocklistWithSource ''blocklist-source'' id')
      else
        and_then (ip_db R id' g) (\<lambda>blocklistDB.
        and_then (index gr 0) (\<lambda>child.
        and_then
          (ext (NewClientBlocklist R id' child
             \<lparr>ClientBlocklistOptions.BlocklistResolver = resolvers (BlockListResolver g),
                ClientBlocklistOptions.BlocklistDB = blocklistDB,
                ClientBlocklistOptions.BlocklistRefresh = group.BlocklistRefresh g * Second\<rparr>))
          (\<lambda>r. Inr (resolvers(id' \<mapsto> r))))))"

definition case_static_responder ::
  "('r, 'db, 'ipdb, 'rt) stages \<Rightarrow> string \<Rightarrow> group \<Rightarrow> (string \<rightharpoonup> 'r)
     \<Rightarrow> error + (string \<rightharpoonup> 'r)" where
  "case_static_responder R id' g resolvers =
     and_then
       (ext (NewStaticResolver R id'
          \<lparr>StaticResolverOptions.Answer = group.Answer g,
             StaticResolverOptions.NS = group.NS g,
             StaticResolverOptions.Extra = group.Extra g,
             StaticResolverOptions.RCode = group.RCode g\<rparr>))
       (\<lambda>r. Inr (resolvers(id' \<mapsto> r)))"

definition case_response_minimize ::
  "('r, 'db, 'ipdb, 'rt) stages \<Rightarrow> string \<Rightarrow> 'r list \<Rightarrow> (string \<rightharpoonup> 'r)
     \<Rightarrow> error + (string \<rightharpoonup> 'r)" where
  "case_response_minimize R id' gr resolvers =
     (if length gr \<noteq> 1 then Inl (OnlyOneResolver ''response-minimize'' id')
      else
        and_then (index gr 0) (\<lambda>child.
          Inr (resolvers(id' \<mapsto> NewResponseMinimize R id' child))))"

definition case_response_collapse ::
  "('r, 'db, 'ipdb, 'rt) stages \<Rightarrow> string \<Rightarrow> group \<Rightarrow> 'r list \<Rightarrow> (string \<rightharpoonup> 'r)
     \<Rightarrow> error + (string \<rightharpoonup> 'r)" where
  "case_response_collapse R id' g gr resolvers =
     (if length gr \<noteq> 1 then Inl (OnlyOneResolver ''response-collapse'' id')
      else
        and_then (index gr 0) (\<lambda>child.
          Inr (resolvers(id' \<mapsto>
            NewResponseCollapse R id' child
              \<lparr>ResponseCollapsOptions.NullRCode = group.NullRCode g\<rparr>))))"

definition case_rate_limiter ::
  "('r, 'db, 'ipdb, 'rt) stages \<Rightarrow> string \<Rightarrow> group \<Rightarrow> 'r list \<Rightarrow> (string \<rightharpoonup> 'r)
     \<Rightarrow> error + (string \<rightharpoonup> 'r)" where
  "case_rate_limiter R id' g gr resolvers =
     (if length gr \<noteq> 1 then Inl (OnlyOneResolver ''rate-limiter'' id')
      else
        and_then (index gr 0) (\<lambda>child.
          Inr (resolvers(id' \<mapsto>
            NewRateLimiter R id' child
              \<lparr>RateLimiterOptions.Requests = group.Requests g,
                 RateLimiterOptions.Window = group.Window g,
                 RateLimiterOptions.Prefix4 = group.Prefix4 g,
                 RateLimiterOptions.Prefix6 = group.Prefix6 g,
                 RateLimiterOptions.LimitResolver = resolvers (group.LimitResolver g)\<rparr>))))"

text \<open>
  instantiateGroup: the children, then the switch on \<^verbatim>\<open>g.Type\<close>, case by case in the
  order of the source. On success the resolver map holds the new object at \<open>id'\<close>.
\<close>

definition instantiateGroup ::
  "('r, 'db, 'ipdb, 'rt) stages \<Rightarrow> string \<Rightarrow> group \<Rightarrow> (string \<rightharpoonup> 'r)
     \<Rightarrow> error + (string \<rightharpoonup> 'r)" where
  "instantiateGroup R id' g resolvers =
     and_then (group_resolvers id' (group.Resolvers g) resolvers []) (\<lambda>gr.
       if group.Type g = ''round-robin'' then
         Inr (resolvers(id' \<mapsto> NewRoundRobin R id' gr))
       else if group.Type g = ''fail-rotate'' then
         Inr (resolvers(id' \<mapsto> NewFailRotate R id' gr))
       else if group.Type g = ''fail-back'' then
         Inr (resolvers(id' \<mapsto>
           NewFailBack R id' \<lparr>FailBackOptions.ResetAfter = Minute\<rparr> gr))
       else if group.Type g = ''random'' then
         Inr (resolvers(id' \<mapsto> NewRandom R id' \<lparr>RandomOptions.ResetAfter = Minute\<rparr> gr))
       else if group.Type g = ''blocklist'' then case_blocklist R id' g gr resolvers
       else if group.Type g = ''blocklist-v2'' then case_blocklist_v2 R id' g gr resolvers
       else if group.Type g = ''replace'' then case_replace R id' g gr resolvers
       else if group.Type g = ''ttl-modifier'' then case_ttl_modifier R id' g gr resolvers
       else if group.Type g = ''ecs-modifier'' then case_ecs_modifier R id' g gr resolvers
       else if group.Type g = ''edns0-modifier'' then case_edns0_modifier R id' g gr resolvers
       else if group.Type g = ''cache'' then case_cache R id' g gr resolvers
       else if group.Type g = ''response-blocklist-ip''
               \<or> group.Type g = ''response-blocklist-cidr'' then
         case_response_blocklist_ip R id' g gr resolvers
       else if group.Type g = ''response-blocklist-name'' then
         case_response_blocklist_name R id' g gr resolvers
       else if group.Type g = ''client-blocklist'' then
         case_client_blocklist R id' g gr resolvers
       else if group.Type g = ''static-responder'' then case_static_responder R id' g resolvers
       else if group.Type g = ''response-minimize'' then
         case_response_minimize R id' gr resolvers
       else if group.Type g = ''response-collapse'' then
         case_response_collapse R id' g gr resolvers
       else if group.Type g = ''drop'' then Inr (resolvers(id' \<mapsto> NewDropResolver R id'))
       else if group.Type g = ''rate-limiter'' then case_rate_limiter R id' g gr resolvers
       else Inl (UnsupportedGroupType (group.Type g) id'))"

subsection \<open>instantiateRouter\<close>

text \<open>
  The list handed to \<^verbatim>\<open>rdns.NewRoute\<close>: \<^verbatim>\<open>types := route.Types\<close>, and the deprecated
  \<^verbatim>\<open>route.Type\<close> appended when it is not empty.
\<close>

definition route_types :: "route \<Rightarrow> string list" where
  "route_types route =
     (if route.Type route \<noteq> [] then Types route @ [route.Type route] else Types route)"

text \<open>The loop over \<^verbatim>\<open>r.Routes\<close>; \<open>router\<close> is the router built so far.\<close>

fun add_routes ::
  "('r, 'db, 'ipdb, 'rt) stages \<Rightarrow> string \<Rightarrow> route list \<Rightarrow> (string \<rightharpoonup> 'r) \<Rightarrow> 'r
     \<Rightarrow> error + 'r" where
  "add_routes R id' [] resolvers router = Inr router"
| "add_routes R id' (route # routes) resolvers router =
     (case resolvers (route.Resolver route) of
        None \<Rightarrow> Inl (RouterMissingResolver id' (route.Resolver route))
      | Some resolver \<Rightarrow>
          (case NewRoute R (Name route) (Class route) (route_types route) (route.Source route)
                  resolver of
             Inl err \<Rightarrow> Inl (RouteFailed id' (External err))
           | Inr r \<Rightarrow>
               add_routes R id' routes resolvers
                 (Router_Add R router (Route_Invert R r (Invert route)))))"

definition instantiateRouter ::
  "('r, 'db, 'ipdb, 'rt) stages \<Rightarrow> string \<Rightarrow> router \<Rightarrow> (string \<rightharpoonup> 'r)
     \<Rightarrow> error + (string \<rightharpoonup> 'r)" where
  "instantiateRouter R id' r resolvers =
     and_then (add_routes R id' (Routes r) resolvers (NewRouter R id'))
       (\<lambda>router. Inr (resolvers(id' \<mapsto> router)))"

subsection \<open>start: resolvers and the dependency map\<close>

text \<open>The loop over \<^verbatim>\<open>config.Resolvers\<close>.\<close>

fun config_resolvers ::
  "'r loader \<Rightarrow> (string \<times> resolver) list \<Rightarrow> (string \<rightharpoonup> 'r) \<Rightarrow> error + (string \<rightharpoonup> 'r)" where
  "config_resolvers M [] resolvers = Inr resolvers"
| "config_resolvers M ((id', r) # rest) resolvers =
     (if resolvers id' \<noteq> None then Inl (DuplicateResolverId id')
      else
        (case resolverFromConfig M id' r of
           Inl err \<Rightarrow> Inl (ResolverFailed id' (External err))
         | Inr x \<Rightarrow> config_resolvers M rest (resolvers(id' \<mapsto> x))))"

text \<open>
  \<^verbatim>\<open>deps\<close> is a \<^verbatim>\<open>map[string][]string\<close> that start ranges over: an association list.
  \<^verbatim>\<open>deps[id] = v\<close> is \<open>AList.update\<close>, \<^verbatim>\<open>delete(deps, id)\<close> is \<open>AList.delete\<close>, and
  \<^verbatim>\<open>deps[id]\<close> of an absent key is the nil slice.
\<close>

type_synonym deps = "(string \<times> string list) list"

definition opt_ref :: "string \<Rightarrow> string list" where
  "opt_ref rid = (if rid \<noteq> [] then [rid] else [])"

text \<open>The loop over \<^verbatim>\<open>config.Groups\<close>.\<close>

fun group_deps :: "(string \<times> group) list \<Rightarrow> deps \<Rightarrow> error + deps" where
  "group_deps [] deps = Inr deps"
| "group_deps ((id', g) # groups) deps =
     (if map_of deps id' \<noteq> None then Inl (DuplicateName id')
      else
        group_deps groups
          (AList.update id'
             (group.Resolvers g @ opt_ref (BlockListResolver g)
                @ opt_ref (group.AllowListResolver g) @ opt_ref (group.LimitResolver g))
             deps))"

text \<open>
  The loop over \<^verbatim>\<open>config.Routers\<close>, and in it the loop over the routes of one router:
  \<^verbatim>\<open>deps[id] = append(deps[id], route.Resolver)\<close>. A router without routes gets no
  entry.
\<close>

fun route_deps :: "string \<Rightarrow> route list \<Rightarrow> deps \<Rightarrow> deps" where
  "route_deps id' [] deps = deps"
| "route_deps id' (route # routes) deps =
     route_deps id' routes
       (AList.update id'
          ((case map_of deps id' of None \<Rightarrow> [] | Some ds \<Rightarrow> ds) @ [route.Resolver route])
          deps)"

fun router_deps :: "(string \<times> router) list \<Rightarrow> deps \<Rightarrow> error + deps" where
  "router_deps [] deps = Inr deps"
| "router_deps ((id', r) # routers) deps =
     (if map_of deps id' \<noteq> None then Inl (DuplicateName id')
      else router_deps routers (route_deps id' (Routes r) deps))"

subsection \<open>start: the fixed-point loop\<close>

text \<open>
  Go does not specify the order in which \<^verbatim>\<open>range deps\<close> visits the entries, and the
  order may change from one pass to the next. \<open>range_order pri m\<close> is \<open>m\<close> in the order
  that visits the keys listed in \<open>pri\<close> first, as listed, and the others after them:
  every order of \<open>m\<close> is \<open>range_order pri m\<close> for the \<open>pri\<close> that lists its keys.
\<close>

definition range_order :: "string list \<Rightarrow> (string \<times> 'v) list \<Rightarrow> (string \<times> 'v) list" where
  "range_order pri m =
     concat (map (\<lambda>k. filter (\<lambda>e. fst e = k) m) (remdups pri))
       @ filter (\<lambda>e. fst e \<notin> set pri) m"

text \<open>
  The body \<^verbatim>\<open>if g, ok := config.Groups[id]; ok { ... }; if r, ok := config.Routers[id];
  ok { ... }\<close> that instantiates a node.
\<close>

definition instantiate ::
  "('r, 'db, 'ipdb, 'rt) stages \<Rightarrow> config \<Rightarrow> string \<Rightarrow> (string \<rightharpoonup> 'r)
     \<Rightarrow> error + (string \<rightharpoonup> 'r)" where
  "instantiate R config id' resolvers =
     and_then
       (case map_of (Groups config) id' of
          Some g \<Rightarrow> instantiateGroup R id' g resolvers
        | None \<Rightarrow> Inr resolvers)
       (\<lambda>resolvers.
          case map_of (Routers config) id' of
            Some r \<Rightarrow> instantiateRouter R id' r resolvers
          | None \<Rightarrow> Inr resolvers)"

text \<open>
  One pass \<^verbatim>\<open>for id, dependencies := range deps\<close> over the entries in the order given:
  an entry with a dependency that is absent from the resolver map is skipped
  (\<^verbatim>\<open>continue node\<close>); any other is instantiated, deleted from \<open>deps\<close>, and sets
  \<open>found\<close>.
\<close>

fun pass ::
  "(string \<Rightarrow> (string \<rightharpoonup> 'r) \<Rightarrow> error + (string \<rightharpoonup> 'r)) \<Rightarrow> deps \<Rightarrow> deps
     \<Rightarrow> (string \<rightharpoonup> 'r) \<Rightarrow> bool \<Rightarrow> error + (deps \<times> (string \<rightharpoonup> 'r) \<times> bool)" where
  "pass inst [] deps resolvers found = Inr (deps, resolvers, found)"
| "pass inst ((id', dependencies) # entries) deps resolvers found =
     (if \<exists>depID \<in> set dependencies. resolvers depID = None then
        pass inst entries deps resolvers found
      else
        (case inst id' resolvers of
           Inl err \<Rightarrow> Inl err
         | Inr resolvers' \<Rightarrow> pass inst entries (AList.delete id' deps) resolvers' True))"

text \<open>A pass never adds an entry, and one that sets \<open>found\<close> has deleted one.\<close>

lemma length_delete_less:
  "k \<in> fst ` set al \<Longrightarrow> length (AList.delete k al) < length al"
proof -
  assume "k \<in> fst ` set al"
  then obtain v where "(k, v) \<in> set al" by auto
  then have "length (filter (\<lambda>(k', v). k \<noteq> k') al) < length al"
    by (rule length_filter_less) simp
  then show ?thesis by (simp add: AList.delete_eq)
qed

lemma pass_length_le:
  "pass inst entries deps resolvers found = Inr (deps', resolvers', found')
    \<Longrightarrow> length deps' \<le> length deps"
proof (induction entries arbitrary: deps resolvers found)
  case Nil
  then show ?case by simp
next
  case (Cons e entries)
  obtain k ds where e: "e = (k, ds)" by (cases e)
  show ?case
  proof (cases "\<exists>depID \<in> set ds. resolvers depID = None")
    case True
    with Cons.prems e have "pass inst entries deps resolvers found = Inr (deps', resolvers', found')"
      by simp
    then show ?thesis by (rule Cons.IH)
  next
    case False
    with Cons.prems e obtain rs where
      "pass inst entries (AList.delete k deps) rs True = Inr (deps', resolvers', found')"
      by (auto split: sum.splits)
    then have "length deps' \<le> length (AList.delete k deps)" by (rule Cons.IH)
    also have "\<dots> \<le> length deps" by (rule length_delete_le)
    finally show ?thesis .
  qed
qed

lemma pass_found_length_less:
  "pass inst entries deps resolvers False = Inr (deps', resolvers', True)
    \<Longrightarrow> fst ` set entries \<subseteq> fst ` set deps
    \<Longrightarrow> length deps' < length deps"
proof (induction entries)
  case Nil
  then show ?case by simp
next
  case (Cons e entries)
  obtain k ds where e: "e = (k, ds)" by (cases e)
  show ?case
  proof (cases "\<exists>depID \<in> set ds. resolvers depID = None")
    case True
    with Cons.prems e have "pass inst entries deps resolvers False = Inr (deps', resolvers', True)"
      by simp
    with Cons.IH Cons.prems(2) show ?thesis by simp
  next
    case False
    with Cons.prems e obtain rs where
      "pass inst entries (AList.delete k deps) rs True = Inr (deps', resolvers', True)"
      by (auto split: sum.splits)
    then have "length deps' \<le> length (AList.delete k deps)" by (rule pass_length_le)
    also have "\<dots> < length deps"
      using Cons.prems(2) e by (intro length_delete_less) simp
    finally show ?thesis .
  qed
qed

lemma set_range_order: "set (range_order pri m) = set m"
  by (auto simp: range_order_def)

text \<open>
  The loop \<^verbatim>\<open>for len(deps) > 0 { found := false; ...; if !found { return ... } }\<close>.
  \<open>order n\<close> fixes the order of pass \<open>n\<close> through \<open>range_order\<close>. The result is paired
  with the number of the passes run so far, \<open>n\<close> counting those before the call; the
  source keeps no such counter.
\<close>

function resolve ::
  "(nat \<Rightarrow> string list) \<Rightarrow> (string \<Rightarrow> (string \<rightharpoonup> 'r) \<Rightarrow> error + (string \<rightharpoonup> 'r)) \<Rightarrow> nat
     \<Rightarrow> deps \<Rightarrow> (string \<rightharpoonup> 'r) \<Rightarrow> nat \<times> (error + (string \<rightharpoonup> 'r))" where
  "resolve order inst n deps resolvers =
     (if deps = [] then (n, Inr resolvers)
      else
        (case pass inst (range_order (order n) deps) deps resolvers False of
           Inl err \<Rightarrow> (Suc n, Inl err)
         | Inr (deps', resolvers', found) \<Rightarrow>
             if \<not> found then (Suc n, Inl UnableToResolveDependencies)
             else resolve order inst (Suc n) deps' resolvers'))"
  by pat_completeness auto
termination
proof (relation "measure (\<lambda>(order, inst, n, deps, resolvers). length deps)")
  show "wf (measure (\<lambda>(order, inst, n, deps, resolvers). length deps))" by simp
next
  fix order :: "nat \<Rightarrow> string list"
    and inst :: "string \<Rightarrow> (string \<rightharpoonup> 'r) \<Rightarrow> error + (string \<rightharpoonup> 'r)"
    and n :: nat and deps :: deps and resolvers :: "string \<rightharpoonup> 'r"
    and x2 and deps' :: deps and y and resolvers' :: "string \<rightharpoonup> 'r" and found :: bool
  assume "pass inst (range_order (order n) deps) deps resolvers False = Inr x2"
    and "(deps', y) = x2" and "(resolvers', found) = y" and "\<not> \<not> found"
  then have "pass inst (range_order (order n) deps) deps resolvers False
      = Inr (deps', resolvers', True)"
    by auto
  then have "length deps' < length deps"
    by (rule pass_found_length_less) (simp add: set_range_order)
  then show "((order, inst, Suc n, deps', resolvers'), (order, inst, n, deps, resolvers))
      \<in> measure (\<lambda>(order, inst, n, deps, resolvers). length deps)"
    by simp
qed

declare resolve.simps [simp del]

subsection \<open>start: the listeners\<close>

text \<open>
  The body of the loop over \<^verbatim>\<open>config.Listeners\<close>: the listener built for one entry.
  \<^verbatim>\<open>resolver, ok := resolvers[l.Resolver]\<close> leaves \<^verbatim>\<open>resolver\<close> nil when the key is
  absent.
\<close>

definition new_listener ::
  "('r, 'net, 'tls, 'dtls, 'ln) frontends \<Rightarrow> (string \<rightharpoonup> 'r) \<Rightarrow> string \<Rightarrow> listener
     \<Rightarrow> error + 'ln" where
  "new_listener S resolvers id' l =
     (let resolver = resolvers (listener.Resolver l) in
      if resolver = None \<and> listener.Protocol l \<noteq> ''admin'' then
        Inl (ListenerMissingResolver id' (listener.Resolver l))
      else
        and_then (ext (parseCIDRList S (listener.AllowedNet l))) (\<lambda>allowedNet.
          let opt = \<lparr>ListenOptions.AllowedNet = allowedNet\<rparr> in
          if listener.Protocol l = ''tcp'' then
            Inr (NewDNSListener S id' (listener.Address l) ''tcp'' opt resolver)
          else if listener.Protocol l = ''udp'' then
            Inr (NewDNSListener S id' (listener.Address l) ''udp'' opt resolver)
          else if listener.Protocol l = ''admin'' then
            and_then
              (ext (TLSServerConfig S (CA l) (ServerCrt l) (ServerKey l) (MutualTLS l)))
              (\<lambda>tlsConfig.
                 ext (NewAdminListener S id' (listener.Address l)
                   \<lparr>AdminListenerOptions.TLSConfig = tlsConfig,
                      AdminListenerOptions.ListenOptions = opt,
                      AdminListenerOptions.Transport = listener.Transport l\<rparr>))
          else if listener.Protocol l = ''dot'' then
            and_then
              (ext (TLSServerConfig S (CA l) (ServerCrt l) (ServerKey l) (MutualTLS l)))
              (\<lambda>tlsConfig.
                 Inr (NewDoTListener S id' (listener.Address l)
                   \<lparr>DoTListenerOptions.TLSConfig = tlsConfig,
                      DoTListenerOptions.ListenOptions = opt\<rparr>
                   resolver))
          else if listener.Protocol l = ''dtls'' then
            and_then
              (ext (DTLSServerConfig S (CA l) (ServerCrt l) (ServerKey l) (MutualTLS l)))
              (\<lambda>dtlsConfig.
                 Inr (NewDTLSListener S id' (listener.Address l)
                   \<lparr>DTLSListenerOptions.DTLSConfig = dtlsConfig,
                      DTLSListenerOptions.ListenOptions = opt\<rparr>
                   resolver))
          else if listener.Protocol l = ''doh'' then
            and_then
              (ext (TLSServerConfig S (CA l) (ServerCrt l) (ServerKey l) (MutualTLS l)))
              (\<lambda>tlsConfig.
            and_then
              (if frontend.HTTPProxyNet (Frontend l) \<noteq> [] then
                 (case net_ParseCIDR S (frontend.HTTPProxyNet (Frontend l)) of
                    Inl err \<Rightarrow>
                      Inl (TrustedProxyFailed id' (frontend.HTTPProxyNet (Frontend l))
                             (External err))
                  | Inr httpProxyNet \<Rightarrow> Inr (Some httpProxyNet))
               else Inr None)
              (\<lambda>httpProxyNet.
                 ext (NewDoHListener S id' (listener.Address l)
                   \<lparr>DoHListenerOptions.TLSConfig = tlsConfig,
                      DoHListenerOptions.ListenOptions = opt,
                      DoHListenerOptions.Transport = listener.Transport l,
                      DoHListenerOptions.HTTPProxyNet = httpProxyNet\<rparr>
                   resolver)))
          else if listener.Protocol l = ''doq'' then
            and_then
              (ext (TLSServerConfig S (CA l) (ServerCrt l) (ServerKey l) (MutualTLS l)))
              (\<lambda>tlsConfig.
                 Inr (NewQUICListener S id' (listener.Address l)
                   \<lparr>DoQListenerOptions.TLSConfig = tlsConfig,
                      DoQListenerOptions.ListenOptions = opt\<rparr>
                   resolver))
          else Inl (UnsupportedProtocol (listener.Protocol l) id')))"

text \<open>
  The loop over \<^verbatim>\<open>config.Listeners\<close>. It returns the slice \<^verbatim>\<open>listeners\<close> as it
  stands when the loop ends, and the error that ended it, if one did.
\<close>

fun build_listeners ::
  "('r, 'net, 'tls, 'dtls, 'ln) frontends \<Rightarrow> (string \<rightharpoonup> 'r) \<Rightarrow> (string \<times> listener) list
     \<Rightarrow> 'ln list \<Rightarrow> 'ln list \<times> error option" where
  "build_listeners S resolvers [] listeners = (listeners, None)"
| "build_listeners S resolvers ((id', l) # rest) listeners =
     (case new_listener S resolvers id' l of
        Inl err \<Rightarrow> (listeners, Some err)
      | Inr ln \<Rightarrow> build_listeners S resolvers rest (listeners @ [ln]))"

subsection \<open>start\<close>

text \<open>
  What start has done when it returns, or when it blocks in \<^verbatim>\<open>select {}\<close>:
  \<^item> \<open>returned\<close>: the error returned (or the panic); \<open>None\<close> when start has reached
    \<^verbatim>\<open>select {}\<close>, where it blocks forever;
  \<^item> \<open>log_level\<close>: the level given to \<^verbatim>\<open>rdns.Log.SetLevel\<close>, once it is called;
  \<^item> \<open>default_resolver\<close>: the bootstrap resolver that replaced \<^verbatim>\<open>net.DefaultResolver\<close>
    (wrapped by \<^verbatim>\<open>rdns.NewNetResolver\<close>), if one did;
  \<^item> \<open>constructed\<close>: the slice \<^verbatim>\<open>listeners\<close>;
  \<^item> \<open>started\<close>: the listeners handed to a supervisor goroutine, each to its own.
\<close>

record ('r, 'ln) outcome =
  returned :: "error option"
  log_level :: "32 word option"
  default_resolver :: "'r option"
  constructed :: "'ln list"
  started :: "'ln list"

definition idle :: "('r, 'ln) outcome" where
  "idle = \<lparr>returned = None, log_level = None, default_resolver = None,
            constructed = [], started = []\<rparr>"

text \<open>
  The part of start from the resolver map to the end of the fixed-point loop: the
  resolver map that the listeners are built over, or the error returned.
\<close>

definition assemble ::
  "'r loader \<Rightarrow> ('r, 'db, 'ipdb, 'rt) stages \<Rightarrow> (nat \<Rightarrow> string list) \<Rightarrow> config
     \<Rightarrow> error + (string \<rightharpoonup> 'r)" where
  "assemble M R order config =
     and_then (config_resolvers M (config.Resolvers config) Map.empty) (\<lambda>resolvers.
     and_then (group_deps (Groups config) []) (\<lambda>deps.
     and_then (router_deps (Routers config) deps) (\<lambda>deps.
       snd (resolve order (instantiate R config) 0 deps resolvers))))"

text \<open>The bootstrap resolver: \<open>None\<close> when the configuration defines none.\<close>

definition bootstrap :: "'r loader \<Rightarrow> config \<Rightarrow> error + 'r option" where
  "bootstrap M config =
     (if resolver.Address (BootstrapResolver config) \<noteq> [] then
        (case resolverFromConfig M ''bootstrap-resolver'' (BootstrapResolver config) of
           Inl err \<Rightarrow> Inl (BootstrapFailed (External err))
         | Inr b \<Rightarrow> Inr (Some b))
      else Inr None)"

definition start ::
  "'r loader \<Rightarrow> ('r, 'db, 'ipdb, 'rt) stages \<Rightarrow> ('r, 'net, 'tls, 'dtls, 'ln) frontends
     \<Rightarrow> (nat \<Rightarrow> string list) \<Rightarrow> options \<Rightarrow> string list \<Rightarrow> ('r, 'ln) outcome" where
  "start M R S order opt args =
     (if 6 < logLevel opt then idle\<lparr>returned := Some (InvalidLogLevel (logLevel opt))\<rparr>
      else
        let st = idle\<lparr>log_level := Some (logLevel opt)\<rparr> in
        (case loadConfig M args of
           Inl err \<Rightarrow> st\<lparr>returned := Some (External err)\<rparr>
         | Inr config \<Rightarrow>
             (case bootstrap M config of
                Inl err \<Rightarrow> st\<lparr>returned := Some err\<rparr>
              | Inr boot \<Rightarrow>
                  let st = st\<lparr>default_resolver := boot\<rparr> in
                  (case assemble M R order config of
                     Inl err \<Rightarrow> st\<lparr>returned := Some err\<rparr>
                   | Inr resolvers \<Rightarrow>
                       (case build_listeners S resolvers (Listeners config) [] of
                          (listeners, Some err) \<Rightarrow>
                            st\<lparr>constructed := listeners, returned := Some err\<rparr>
                        | (listeners, None) \<Rightarrow>
                            st\<lparr>constructed := listeners, started := listeners\<rparr>)))))"

subsection \<open>Routes, as the specification describes them\<close>

text \<open>
  Modelled from the spec: \<^verbatim>\<open>rdns.NewRoute\<close>, \<^verbatim>\<open>(*route).Invert\<close> and the type predicate
  of a route are missing (they are in \<^verbatim>\<open>route.go\<close> of package rdns). The spec, 4.3: a
  route is a predicate (name regex, class, type set, source CIDR, inverted?) with a target
  resolver; route compilation validates that the name pattern is a well-formed regular
  expression and that the source CIDR parses; the type set is deduplicated; an empty
  predicate field matches everything; a query passes the type predicate when its type is
  in the type set. \<open>valid_regex\<close> and \<open>valid_cidr\<close> stand for the two validations.
\<close>

datatype 'r sroute =
  SRoute (name: string) (cls: string) (types: "string list") (source: string)
    (inverted: bool) (target: 'r)

definition spec_NewRoute ::
  "(string \<Rightarrow> bool) \<Rightarrow> (string \<Rightarrow> bool) \<Rightarrow> string \<Rightarrow> string \<Rightarrow> string list \<Rightarrow> string \<Rightarrow> 'r
     \<Rightarrow> string + 'r sroute" where
  "spec_NewRoute valid_regex valid_cidr nm cl tps src resolver =
     (if \<not> valid_regex nm then Inl ''malformed regular expression''
      else if \<not> valid_cidr src then Inl ''malformed CIDR''
      else Inr (SRoute nm cl (remdups tps) src False resolver))"

text \<open>Modelled from the spec: \<^verbatim>\<open>(*route).Invert\<close>, which sets the inverted flag.\<close>

definition spec_Invert :: "'r sroute \<Rightarrow> bool \<Rightarrow> 'r sroute" where
  "spec_Invert r b = SRoute (name r) (cls r) (types r) (source r) b (target r)"

text \<open>
  Modelled from the spec: the type predicate of a route, before inversion (the empty type
  set matches every type).
\<close>

definition type_matches :: "'r sroute \<Rightarrow> string \<Rightarrow> bool" where
  "type_matches r qtype = (types r = [] \<or> qtype \<in> set (types r))"

subsection \<open>A library to run the assembler on\<close>

text \<open>
  One implementation of the parameters, on which start, instantiateGroup and
  instantiateRouter can be evaluated: no call fails, a resolver is the tree of its kind,
  its id, the numbers among its options and its children, a blocklist database is the list of its loaders, a listener is
  its id and its protocol. \<open>loadConfig\<close> returns the configuration it is given here.
\<close>

datatype node = Node string string "nat list" "node list"

definition add_child :: "node \<Rightarrow> node \<Rightarrow> node" where
  "add_child n c = (case n of Node kind id' nums children \<Rightarrow> Node kind id' nums (children @ [c]))"

definition plain_loader :: "config \<Rightarrow> node loader" where
  "plain_loader config =
     \<lparr>loadConfig = (\<lambda>args. Inr config),
        resolverFromConfig = (\<lambda>id' r. Inr (Node ''resolver'' id' [] []))\<rparr>"

definition plain_stages ::
  "(node, BlocklistLoader list, BlocklistLoader list, node sroute) stages" where
  "plain_stages =
     \<lparr>url_Parse = (\<lambda>s. Inr \<lparr>Scheme = []\<rparr>),
        NewRoundRobin = (\<lambda>id' gr. Node ''round-robin'' id' [] gr),
        NewFailRotate = (\<lambda>id' gr. Node ''fail-rotate'' id' [] gr),
        NewFailBack =
          (\<lambda>id' opt gr. Node ''fail-back'' id' [unat (FailBackOptions.ResetAfter opt)] gr),
        NewRandom =
          (\<lambda>id' opt gr. Node ''random'' id' [unat (RandomOptions.ResetAfter opt)] gr),
        NewBlocklist = (\<lambda>id' r opt. Inr (Node ''blocklist'' id' [] [r])),
        NewReplace = (\<lambda>id' r ops. Inr (Node ''replace'' id' [] [r])),
        NewTTLModifier = (\<lambda>id' r opt. Node ''ttl-modifier'' id' [] [r]),
        NewECSModifier = (\<lambda>id' r f. Inr (Node ''ecs-modifier'' id' [] [r])),
        NewEDNS0Modifier = (\<lambda>id' r f. Inr (Node ''edns0-modifier'' id' [] [r])),
        NewCache = (\<lambda>id' r opt. Node ''cache'' id' [] [r]),
        NewResponseBlocklistIP = (\<lambda>id' r opt. Inr (Node ''response-blocklist-ip'' id' [] [r])),
        NewResponseBlocklistName =
          (\<lambda>id' r opt. Inr (Node ''response-blocklist-name'' id' [] [r])),
        NewClientBlocklist = (\<lambda>id' r opt. Inr (Node ''client-blocklist'' id' [] [r])),
        NewStaticResolver = (\<lambda>id' opt. Inr (Node ''static-responder'' id' [] [])),
        NewResponseMinimize = (\<lambda>id' r. Node ''response-minimize'' id' [] [r]),
        NewResponseCollapse = (\<lambda>id' r opt. Node ''response-collapse'' id' [] [r]),
        NewDropResolver = (\<lambda>id'. Node ''drop'' id' [] []),
        NewRateLimiter = (\<lambda>id' r opt. Node ''rate-limiter'' id' [] [r]),
        NewRouter = (\<lambda>id'. Node ''router'' id' [] []),
        NewRoute = spec_NewRoute (\<lambda>s. True) (\<lambda>s. True),
        Route_Invert = spec_Invert,
        Router_Add = (\<lambda>router r. add_child router (target r)),
        NewRegexpDB = (\<lambda>loader. Inr [loader]),
        NewDomainDB = (\<lambda>loader. Inr [loader]),
        NewHostsDB = (\<lambda>loader. Inr [loader]),
        NewMultiDB = (\<lambda>dbs. Inr (concat dbs)),
        NewCidrDB = (\<lambda>loader. Inr [loader]),
        NewGeoIPDB = (\<lambda>loader locationDB. Inr [loader]),
        NewMultiIPDB = (\<lambda>dbs. Inr (concat dbs))\<rparr>"

definition plain_frontends :: "(node, string, string, string, string \<times> string) frontends" where
  "plain_frontends =
     \<lparr>parseCIDRList = (\<lambda>nets. Inr nets),
        net_ParseCIDR = (\<lambda>s. Inr s),
        TLSServerConfig = (\<lambda>ca crt key mutual. Inr crt),
        DTLSServerConfig = (\<lambda>ca crt key mutual. Inr crt),
        NewDNSListener = (\<lambda>id' addr net opt resolver. (id', net)),
        NewAdminListener = (\<lambda>id' addr opt. Inr (id', ''admin'')),
        NewDoTListener = (\<lambda>id' addr opt resolver. (id', ''dot'')),
        NewDTLSListener = (\<lambda>id' addr opt resolver. (id', ''dtls'')),
        NewDoHListener = (\<lambda>id' addr opt resolver. Inr (id', ''doh'')),
        NewQUICListener = (\<lambda>id' addr opt resolver. (id', ''doq''))\<rparr>"

text \<open>The zero values of the configuration structs, and the configurations built on them.\<close>

definition group0 :: group where
  "group0 =
     \<lparr>group.Resolvers = [], group.Type = [], Replace = [], TTLMin = 0, TTLMax = 0,
        ECSOp = [], ECSAddress = [], ECSPrefix4 = 0, ECSPrefix6 = 0, EDNS0Op = [],
        EDNS0Code = 0, EDNS0Data = [], group.GCPeriod = 0, CacheSize = 0,
        CacheNegativeTTL = 0, Blocklist = [], group.Source = [], group.Format = [],
        Refresh = 0, BlockListResolver = [], BlocklistFormat = [],
        group.BlocklistRefresh = 0, BlocklistSource = [], group.AllowListResolver = [],
        Allowlist = [], group.AllowlistRefresh = 0, AllowlistSource = [], LocationDB = [],
        group.Filter = False, group.Answer = [], group.NS = [], group.Extra = [],
        group.RCode = 0, group.NullRCode = 0, group.Requests = 0, group.Window = 0,
        group.Prefix4 = 0, group.Prefix6 = 0, group.LimitResolver = []\<rparr>"

definition group_of :: "string \<Rightarrow> string list \<Rightarrow> group" where
  "group_of kind rids = group0\<lparr>group.Type := kind, group.Resolvers := rids\<rparr>"

definition resolver0 :: resolver where
  "resolver0 = \<lparr>resolver.Address = [], resolver.Protocol = []\<rparr>"

definition resolver_at :: "string \<Rightarrow> resolver" where
  "resolver_at addr = \<lparr>resolver.Address = addr, resolver.Protocol = ''udp''\<rparr>"

definition route_to :: "string list \<Rightarrow> string \<Rightarrow> string \<Rightarrow> route" where
  "route_to tps tp rid =
     \<lparr>route.Type = tp, Types = tps, Class = [], Name = [], route.Source = [],
        Invert = False, route.Resolver = rid\<rparr>"

definition listener_on :: "string \<Rightarrow> string \<Rightarrow> listener" where
  "listener_on proto rid =
     \<lparr>listener.Address = '':53'', listener.Protocol = proto, listener.Transport = [],
        listener.Resolver = rid, CA = [], ServerKey = [], ServerCrt = [], MutualTLS = False,
        listener.AllowedNet = [], Frontend = \<lparr>frontend.HTTPProxyNet = []\<rparr>\<rparr>"

definition config_of ::
  "(string \<times> resolver) list \<Rightarrow> (string \<times> group) list \<Rightarrow> (string \<times> router) list
     \<Rightarrow> (string \<times> listener) list \<Rightarrow> config" where
  "config_of rs gs rts ls =
     \<lparr>BootstrapResolver = resolver0, config.Resolvers = rs, Groups = gs, Routers = rts,
        Listeners = ls\<rparr>"

section \<open>Properties\<close>

subsection \<open>Auxiliary facts\<close>

lemma and_then_simps [simp]:
  "and_then (Inl e) f = Inl e"
  "and_then (Inr x) f = f x"
  by (simp_all add: and_then_def)

lemma ext_simps [simp]:
  "ext (Inl msg) = Inl (External msg)"
  "ext (Inr x) = Inr x"
  by (simp_all add: ext_def)

lemma and_then_Inl_iff:
  "and_then m f = Inl e \<longleftrightarrow> m = Inl e \<or> (\<exists>x. m = Inr x \<and> f x = Inl e)"
  by (cases m) auto

lemma and_then_Inr_iff:
  "and_then m f = Inr y \<longleftrightarrow> (\<exists>x. m = Inr x \<and> f x = Inr y)"
  by (cases m) auto

lemma ext_Inl_iff: "ext m = Inl e \<longleftrightarrow> (\<exists>msg. m = Inl msg \<and> e = External msg)"
  by (cases m) auto

text \<open>The children of a group: all of them, or the first that is missing.\<close>

lemma group_resolvers_eq:
  "group_resolvers id' rids resolvers gr =
     (case find (\<lambda>rid. resolvers rid = None) rids of
        Some rid \<Rightarrow> Inl (GroupMissingResolver id' rid)
      | None \<Rightarrow> Inr (gr @ map (\<lambda>rid. the (resolvers rid)) rids))"
  by (induction rids arbitrary: gr) (auto split: option.splits)

text \<open>\<open>range_order\<close> permutes the map, whatever the priorities are.\<close>

lemma mset_concat_filter_keys:
  "distinct ks \<Longrightarrow>
    mset (concat (map (\<lambda>k. filter (\<lambda>e. fst e = k) m) ks))
      = mset (filter (\<lambda>e. fst e \<in> set ks) m)"
proof (induction ks)
  case Nil
  then show ?case by simp
next
  case (Cons k ks)
  have "mset (filter (\<lambda>e. fst e = k) m) + mset (filter (\<lambda>e. fst e \<in> set ks) m)
      = mset (filter (\<lambda>e. fst e \<in> set (k # ks)) m)"
    using Cons.prems by (induction m) auto
  with Cons show ?case by simp
qed

lemma mset_range_order: "mset (range_order pri m) = mset m"
proof -
  have "mset (range_order pri m)
      = mset (filter (\<lambda>e. fst e \<in> set pri) m) + mset (filter (\<lambda>e. \<not> fst e \<in> set pri) m)"
    by (simp add: range_order_def mset_concat_filter_keys)
  then show ?thesis by simp
qed

lemma length_range_order: "length (range_order pri m) = length m"
  using mset_range_order[of pri m] by (rule mset_eq_length)

lemma range_order_single [simp]: "range_order pri [e] = [e]"
  using mset_range_order[of pri "[e]"] by simp

lemma range_order_pair:
  "range_order pri [x, y] = [x, y] \<or> range_order pri [x, y] = [y, x]"
proof -
  have m: "mset (range_order pri [x, y]) = {#x, y#}"
    by (simp add: mset_range_order)
  have "length (range_order pri [x, y]) = 2"
    by (simp add: length_range_order)
  then obtain u v where uv: "range_order pri [x, y] = [u, v]"
    by (auto simp: numeral_2_eq_2 length_Suc_conv)
  with m have "{#u, v#} = {#x, y#}" by simp
  then have "(u = x \<and> v = y) \<or> (u = y \<and> v = x)"
    by (auto simp: add_eq_conv_ex)
  with uv show ?thesis by auto
qed

text \<open>The definitions that evaluate a run on the library of the previous section.\<close>

lemmas plain_defs =
  plain_loader_def plain_stages_def plain_frontends_def config_of_def group_of_def
  group0_def resolver0_def resolver_at_def route_to_def listener_on_def add_child_def

lemmas start_defs =
  start_def idle_def bootstrap_def assemble_def instantiate_def instantiateGroup_def
  instantiateRouter_def new_listener_def opt_ref_def index_def Let_def

lemma unat_Minute: "unat Minute = 60000000000"
  by (simp add: Minute_def Second_def)

subsection \<open>C8: fail-back and random groups reset after one minute\<close>

text \<open>
  C8. A group of type fail-back is built by \<^verbatim>\<open>rdns.NewFailBack\<close> with the options
  \<^verbatim>\<open>{ResetAfter: time.Minute}\<close>, and a group of type random by \<^verbatim>\<open>rdns.NewRandom\<close> with
  \<^verbatim>\<open>{ResetAfter: time.Minute}\<close>, over the children found in the resolver map, whatever the
  other fields of the group are; the only other outcome is the error for the first child
  that is missing. One minute is 60 000 000 000 nanoseconds, which 64 bits hold.
\<close>

theorem reset_after_one_minute:
  assumes "group.Type g = ''fail-back'' \<or> group.Type g = ''random''"
  shows "instantiateGroup R id' g resolvers =
     (case find (\<lambda>rid. resolvers rid = None) (group.Resolvers g) of
        Some rid \<Rightarrow> Inl (GroupMissingResolver id' rid)
      | None \<Rightarrow>
          Inr (resolvers(id' \<mapsto>
            (if group.Type g = ''fail-back'' then
               NewFailBack R id' \<lparr>FailBackOptions.ResetAfter = Minute\<rparr>
                 (map (\<lambda>rid. the (resolvers rid)) (group.Resolvers g))
             else
               NewRandom R id' \<lparr>RandomOptions.ResetAfter = Minute\<rparr>
                 (map (\<lambda>rid. the (resolvers rid)) (group.Resolvers g))))))
    \<and> unat Minute = 60 * 1000000000"
  using assms
  by (auto simp: instantiateGroup_def group_resolvers_eq unat_Minute split: option.splits)

theorem reset_after_one_minute_witness:
  "group.Type (group_of ''fail-back'' [''a'']) = ''fail-back''
   \<and> instantiateGroup plain_stages ''g'' (group_of ''fail-back'' [''a''])
        [''a'' \<mapsto> Node ''resolver'' ''a'' [] []]
      = Inr [''a'' \<mapsto> Node ''resolver'' ''a'' [] [],
             ''g'' \<mapsto> Node ''fail-back'' ''g'' [60000000000] [Node ''resolver'' ''a'' [] []]]"
  using reset_after_one_minute [of "group_of ''fail-back'' [''a'']" plain_stages "''g''"
      "[''a'' \<mapsto> Node ''resolver'' ''a'' [] []]"]
  by (simp add: plain_defs unat_Minute)

subsection \<open>C4: the arity of the cache stage is not checked\<close>

text \<open>
  C4. The claim is that a group of a unary kind, cache among them, with a resolver list
  that does not have exactly one element is answered by an error. For the kind cache the
  source has no such check: a cache group without resolvers panics on \<^verbatim>\<open>gr[0]\<close> (index out
  of range [0] with length 0), and a cache group with two resolvers is built over the
  first of them without any error.
\<close>

theorem cache_arity_unchecked:
  "instantiateGroup plain_stages ''c'' (group_of ''cache'' []) Map.empty
     = Inl (IndexOutOfRange 0 0)
   \<and> instantiateGroup plain_stages ''c'' (group_of ''cache'' [''a'', ''b''])
        [''a'' \<mapsto> Node ''resolver'' ''a'' [] [], ''b'' \<mapsto> Node ''resolver'' ''b'' [] []]
     = Inr [''a'' \<mapsto> Node ''resolver'' ''a'' [] [], ''b'' \<mapsto> Node ''resolver'' ''b'' [] [],
            ''c'' \<mapsto> Node ''cache'' ''c'' [] [Node ''resolver'' ''a'' [] []]]"
  by (simp add: instantiateGroup_def case_cache_def index_def plain_defs)

subsection \<open>C3: an id shared by a resolver and a group is not reported\<close>

text \<open>
  C3. The claim is that an id defined in more than one of the namespaces resolvers, groups
  and routers makes start return a duplicate-id error, and that no definition overwrites
  another in the resolver map. The source compares the ids of groups with those of
  routers only. For the configuration with the resolver \<open>a\<close>, the round-robin group \<open>a\<close>
  over \<open>a\<close> and a UDP listener on \<open>a\<close>, whatever the order of the passes: no error is
  returned, the listener is started, and the resolver map holds the group at \<open>a\<close>, where
  the resolver was.
\<close>

definition shared_id_config :: config where
  "shared_id_config =
     config_of [(''a'', resolver_at ''192.0.2.1:53'')]
       [(''a'', group_of ''round-robin'' [''a''])] [] [(''l'', listener_on ''udp'' ''a'')]"

theorem shared_id_overwrites:
  "\<forall>order.
     start (plain_loader shared_id_config) plain_stages plain_frontends order
         \<lparr>logLevel = 4\<rparr> [''config.toml'']
       = \<lparr>returned = None, log_level = Some 4, default_resolver = None,
            constructed = [(''l'', ''udp'')], started = [(''l'', ''udp'')]\<rparr>
     \<and> assemble (plain_loader shared_id_config) plain_stages order shared_id_config
       = Inr [''a'' \<mapsto> Node ''round-robin'' ''a'' [] [Node ''resolver'' ''a'' [] []]]"
  by (simp add: shared_id_config_def start_defs plain_defs resolve.simps)

subsection \<open>The dependency map\<close>

text \<open>
  The ids that the node \<open>id'\<close> of a configuration references: the children of a group
  and its blocklist, allowlist and limit resolvers where they are set, and the resolvers
  of the routes of a router.
\<close>

definition node_refs :: "config \<Rightarrow> string \<Rightarrow> string set" where
  "node_refs config id' =
     (case map_of (Groups config) id' of
        None \<Rightarrow> {}
      | Some g \<Rightarrow>
          set (group.Resolvers g)
            \<union> {rid \<in> {BlockListResolver g, group.AllowListResolver g, group.LimitResolver g}.
                 rid \<noteq> []})
     \<union> (case map_of (Routers config) id' of
          None \<Rightarrow> {}
        | Some r \<Rightarrow> route.Resolver ` set (Routes r))"

text \<open>
  What the two loops that fill \<^verbatim>\<open>deps\<close> have built when neither returns an error: keys
  stay distinct, entries stay once written, every group has its entry, and so has every
  router with a route.
\<close>

lemma length_update:
  "length (AList.update k v al) = (if k \<in> fst ` set al then length al else Suc (length al))"
  using arg_cong[OF update_keys[of k v al], of length] by simp

lemma map_of_None_iff: "map_of al k = None \<longleftrightarrow> k \<notin> fst ` set al"
  by (simp add: map_of_eq_None_iff)

lemma group_deps_step:
  assumes "group_deps ((k, g) # groups) deps = Inr deps'"
  shows "map_of deps k = None"
    and "group_deps groups
          (AList.update k
             (group.Resolvers g @ opt_ref (BlockListResolver g)
                @ opt_ref (group.AllowListResolver g) @ opt_ref (group.LimitResolver g))
             deps) = Inr deps'"
proof -
  show a: "map_of deps k = None" using assms by (cases "map_of deps k") auto
  with assms show "group_deps groups
          (AList.update k
             (group.Resolvers g @ opt_ref (BlockListResolver g)
                @ opt_ref (group.AllowListResolver g) @ opt_ref (group.LimitResolver g))
             deps) = Inr deps'"
    by simp
qed

lemma group_deps_distinct:
  "group_deps groups deps = Inr deps' \<Longrightarrow> distinct (map fst deps) \<Longrightarrow> distinct (map fst deps')"
proof (induction groups arbitrary: deps)
  case Nil
  then show ?case by simp
next
  case (Cons e groups)
  obtain k g where e: "e = (k, g)" by (cases e)
  show ?case
    using Cons.IH[OF group_deps_step(2)[OF Cons.prems(1)[unfolded e]]] Cons.prems(2)
    by (simp add: distinct_update)
qed

lemma group_deps_keys:
  "group_deps groups deps = Inr deps' \<Longrightarrow> fst ` set deps' = fst ` set deps \<union> fst ` set groups"
proof (induction groups arbitrary: deps)
  case Nil
  then show ?case by simp
next
  case (Cons e groups)
  obtain k g where e: "e = (k, g)" by (cases e)
  show ?case
    using Cons.IH[OF group_deps_step(2)[OF Cons.prems(1)[unfolded e]]] e
    by (simp add: dom_update)
qed

lemma group_deps_length:
  "group_deps groups deps = Inr deps' \<Longrightarrow> length deps' = length deps + length groups"
proof (induction groups arbitrary: deps)
  case Nil
  then show ?case by simp
next
  case (Cons e groups)
  obtain k g where e: "e = (k, g)" by (cases e)
  have "k \<notin> fst ` set deps"
    using group_deps_step(1)[OF Cons.prems(1)[unfolded e]] by (simp add: map_of_None_iff)
  then show ?case
    using Cons.IH[OF group_deps_step(2)[OF Cons.prems(1)[unfolded e]]] e
    by (simp add: length_update)
qed

lemma group_deps_keeps:
  "group_deps groups deps = Inr deps' \<Longrightarrow> map_of deps k = Some v \<Longrightarrow> map_of deps' k = Some v"
proof (induction groups arbitrary: deps)
  case Nil
  then show ?case by simp
next
  case (Cons e groups)
  obtain k0 g where e: "e = (k0, g)" by (cases e)
  note st = group_deps_step[OF Cons.prems(1)[unfolded e]]
  from st(1) Cons.prems(2) have "k \<noteq> k0" by auto
  then show ?case
    using Cons.IH[OF st(2)] Cons.prems(2) by (simp add: update_conv')
qed

lemma group_deps_entry:
  "group_deps groups deps = Inr deps' \<Longrightarrow> (k, g) \<in> set groups \<Longrightarrow>
     map_of deps' k =
       Some (group.Resolvers g @ opt_ref (BlockListResolver g)
               @ opt_ref (group.AllowListResolver g) @ opt_ref (group.LimitResolver g))"
proof (induction groups arbitrary: deps)
  case Nil
  then show ?case by simp
next
  case (Cons e groups)
  obtain k0 g0 where e: "e = (k0, g0)" by (cases e)
  note st = group_deps_step[OF Cons.prems(1)[unfolded e]]
  show ?case
  proof (cases "(k, g) = (k0, g0)")
    case True
    then show ?thesis
      using group_deps_keeps[OF st(2), of k] by (simp add: update_conv')
  next
    case False
    with Cons.prems(2) e have "(k, g) \<in> set groups" by auto
    then show ?thesis by (rule Cons.IH[OF st(2)])
  qed
qed

lemma route_deps_distinct:
  "distinct (map fst deps) \<Longrightarrow> distinct (map fst (route_deps id' routes deps))"
  by (induction routes arbitrary: deps) (simp_all add: distinct_update)

lemma route_deps_map_of:
  "map_of (route_deps id' routes deps) =
     (if routes = [] then map_of deps
      else (map_of deps)(id' \<mapsto>
             (case map_of deps id' of None \<Rightarrow> [] | Some ds \<Rightarrow> ds)
               @ map route.Resolver routes))"
  by (induction routes arbitrary: deps) (simp_all add: update_conv')

lemma route_deps_keys:
  "fst ` set (route_deps id' routes deps) =
     fst ` set deps \<union> (if routes = [] then {} else {id'})"
  by (induction routes arbitrary: deps) (auto simp: dom_update)

lemma route_deps_length:
  "length (route_deps id' routes deps) \<le> Suc (length deps)
   \<and> (id' \<in> fst ` set deps \<longrightarrow> length (route_deps id' routes deps) = length deps)"
proof (induction routes arbitrary: deps)
  case Nil
  then show ?case by simp
next
  case (Cons route routes)
  let ?d = "AList.update id'
          ((case map_of deps id' of None \<Rightarrow> [] | Some ds \<Rightarrow> ds) @ [route.Resolver route]) deps"
  have "id' \<in> fst ` set ?d" by (simp add: dom_update)
  with Cons.IH[of ?d] show ?case
    by (auto simp: length_update)
qed

lemma router_deps_step:
  assumes "router_deps ((k, r) # routers) deps = Inr deps'"
  shows "map_of deps k = None"
    and "router_deps routers (route_deps k (Routes r) deps) = Inr deps'"
proof -
  show a: "map_of deps k = None" using assms by (cases "map_of deps k") auto
  with assms show "router_deps routers (route_deps k (Routes r) deps) = Inr deps'"
    by simp
qed

lemma router_deps_distinct:
  "router_deps routers deps = Inr deps' \<Longrightarrow> distinct (map fst deps) \<Longrightarrow> distinct (map fst deps')"
proof (induction routers arbitrary: deps)
  case Nil
  then show ?case by simp
next
  case (Cons e routers)
  obtain k r where e: "e = (k, r)" by (cases e)
  show ?case
    using Cons.IH[OF router_deps_step(2)[OF Cons.prems(1)[unfolded e]]] Cons.prems(2)
    by (simp add: route_deps_distinct)
qed

lemma router_deps_keys:
  "router_deps routers deps = Inr deps' \<Longrightarrow>
     fst ` set deps \<subseteq> fst ` set deps' \<and> fst ` set deps' \<subseteq> fst ` set deps \<union> fst ` set routers"
proof (induction routers arbitrary: deps)
  case Nil
  then show ?case by simp
next
  case (Cons e routers)
  obtain k r where e: "e = (k, r)" by (cases e)
  show ?case
    using Cons.IH[OF router_deps_step(2)[OF Cons.prems(1)[unfolded e]]] e
    by (auto simp: route_deps_keys split: if_splits)
qed

lemma router_deps_length:
  "router_deps routers deps = Inr deps' \<Longrightarrow> length deps' \<le> length deps + length routers"
proof (induction routers arbitrary: deps)
  case Nil
  then show ?case by simp
next
  case (Cons e routers)
  obtain k r where e: "e = (k, r)" by (cases e)
  have "length (route_deps k (Routes r) deps) \<le> Suc (length deps)"
    using route_deps_length[of k "Routes r" deps] by simp
  then show ?case
    using Cons.IH[OF router_deps_step(2)[OF Cons.prems(1)[unfolded e]]] e
    by simp
qed

lemma router_deps_keeps:
  "router_deps routers deps = Inr deps' \<Longrightarrow> map_of deps k = Some v \<Longrightarrow> map_of deps' k = Some v"
proof (induction routers arbitrary: deps)
  case Nil
  then show ?case by simp
next
  case (Cons e routers)
  obtain k0 r where e: "e = (k0, r)" by (cases e)
  note st = router_deps_step[OF Cons.prems(1)[unfolded e]]
  from st(1) Cons.prems(2) have "k \<noteq> k0" by auto
  then have "map_of (route_deps k0 (Routes r) deps) k = Some v"
    using Cons.prems(2) by (simp add: route_deps_map_of)
  then show ?case by (rule Cons.IH[OF st(2)])
qed

lemma router_deps_entry:
  "router_deps routers deps = Inr deps' \<Longrightarrow> (k, r) \<in> set routers \<Longrightarrow> Routes r \<noteq> [] \<Longrightarrow>
     map_of deps' k = Some (map route.Resolver (Routes r))"
proof (induction routers arbitrary: deps)
  case Nil
  then show ?case by simp
next
  case (Cons e routers)
  obtain k0 r0 where e: "e = (k0, r0)" by (cases e)
  note st = router_deps_step[OF Cons.prems(1)[unfolded e]]
  show ?case
  proof (cases "(k, r) = (k0, r0)")
    case True
    with st(1) Cons.prems(3)
    have "map_of (route_deps k0 (Routes r0) deps) k = Some (map route.Resolver (Routes r))"
      by (simp add: route_deps_map_of)
    then show ?thesis by (rule router_deps_keeps[OF st(2)])
  next
    case False
    with Cons.prems(2) e have "(k, r) \<in> set routers" by auto
    then show ?thesis using Cons.prems(3) by (rule Cons.IH[OF st(2)])
  qed
qed

text \<open>The dependency map that start hands to the fixed-point loop.\<close>

lemma deps_distinct:
  assumes "group_deps (Groups config) [] = Inr deps0"
    and "router_deps (Routers config) deps0 = Inr deps"
  shows "distinct (map fst deps)"
  using router_deps_distinct[OF assms(2) group_deps_distinct[OF assms(1)]] by simp

lemma deps_length:
  assumes "group_deps (Groups config) [] = Inr deps0"
    and "router_deps (Routers config) deps0 = Inr deps"
  shows "length deps \<le> length (Groups config) + length (Routers config)"
  using group_deps_length[OF assms(1)] router_deps_length[OF assms(2)] by simp

lemma deps_keys:
  assumes "group_deps (Groups config) [] = Inr deps0"
    and "router_deps (Routers config) deps0 = Inr deps"
  shows "fst ` set deps \<subseteq> fst ` set (Groups config) \<union> fst ` set (Routers config)"
  using group_deps_keys[OF assms(1)] router_deps_keys[OF assms(2)] by auto

lemma deps_covers:
  assumes g: "group_deps (Groups config) [] = Inr deps0"
    and r: "router_deps (Routers config) deps0 = Inr deps"
    and e: "(id', ds) \<in> set deps"
  shows "node_refs config id' \<subseteq> set ds"
proof -
  have d: "distinct (map fst deps)" using g r by (rule deps_distinct)
  with e have m: "map_of deps id' = Some ds" by simp
  have "set (group.Resolvers gr)
            \<union> {rid \<in> {BlockListResolver gr, group.AllowListResolver gr, group.LimitResolver gr}.
                 rid \<noteq> []} \<subseteq> set ds"
    if "map_of (Groups config) id' = Some gr" for gr
  proof -
    from that have "(id', gr) \<in> set (Groups config)" by (rule map_of_SomeD)
    from group_deps_entry[OF g this] have "map_of deps id' = Some (group.Resolvers gr @ opt_ref (BlockListResolver gr)
               @ opt_ref (group.AllowListResolver gr) @ opt_ref (group.LimitResolver gr))"
      by (rule router_deps_keeps[OF r])
    with m show ?thesis by (auto simp: opt_ref_def)
  qed
  moreover have "route.Resolver ` set (Routes rt) \<subseteq> set ds"
    if "map_of (Routers config) id' = Some rt" for rt
  proof (cases "Routes rt = []")
    case True
    then show ?thesis by simp
  next
    case False
    from that have "(id', rt) \<in> set (Routers config)" by (rule map_of_SomeD)
    from router_deps_entry[OF r this False] m show ?thesis by auto
  qed
  ultimately show ?thesis
    by (auto simp: node_refs_def split: option.splits)
qed

lemma deps_has_entry:
  assumes g: "group_deps (Groups config) [] = Inr deps0"
    and r: "router_deps (Routers config) deps0 = Inr deps"
    and n: "node_refs config id' \<noteq> {}"
  shows "id' \<in> fst ` set deps"
proof (cases "map_of (Groups config) id'")
  case (Some gr)
  then have "(id', gr) \<in> set (Groups config)" by (rule map_of_SomeD)
  then have "id' \<in> fst ` set deps0" using group_deps_keys[OF g] by force
  then show ?thesis using router_deps_keys[OF r] by auto
next
  case None
  with n obtain rt where rt: "map_of (Routers config) id' = Some rt" and ne: "Routes rt \<noteq> []"
    by (auto simp: node_refs_def split: option.splits)
  from rt have "(id', rt) \<in> set (Routers config)" by (rule map_of_SomeD)
  from router_deps_entry[OF r this ne] show ?thesis
    by (metis domI dom_map_of_conv_image_fst)
qed

subsection \<open>X1: the fixed-point loop runs at most one pass for each group and router\<close>

lemma pass_found_True:
  "pass inst entries deps resolvers True = Inr (deps', resolvers', found') \<Longrightarrow> found'"
  by (induction entries arbitrary: deps resolvers) (auto split: if_splits sum.splits)

lemma pass_not_found:
  "pass inst entries deps resolvers False = Inr (deps', resolvers', False)
    \<Longrightarrow> deps' = deps \<and> resolvers' = resolvers"
  by (induction entries) (auto split: if_splits sum.splits dest: pass_found_True)

lemma resolve_passes:
  "fst (resolve order inst n deps resolvers) \<le> n + length deps"
proof (induction order inst n deps resolvers rule: resolve.induct)
  case (1 order inst n deps resolvers)
  show ?case
  proof (cases "deps = []")
    case True
    then show ?thesis by (simp add: resolve.simps)
  next
    case False
    then have pos: "Suc 0 \<le> length deps" by (cases deps) simp_all
    show ?thesis
    proof (cases "pass inst (range_order (order n) deps) deps resolvers False")
      case (Inl err)
      with False pos show ?thesis by (simp add: resolve.simps)
    next
      case (Inr res)
      obtain deps' resolvers' found where res: "res = (deps', resolvers', found)"
        by (cases res)
      show ?thesis
      proof (cases found)
        case False
        with \<open>deps \<noteq> []\<close> pos Inr res show ?thesis by (simp add: resolve.simps)
      next
        case True
        have "length deps' < length deps"
        proof (rule pass_found_length_less)
          show "pass inst (range_order (order n) deps) deps resolvers False
              = Inr (deps', resolvers', True)"
            using Inr res True by simp
          show "fst ` set (range_order (order n) deps) \<subseteq> fst ` set deps"
            by (simp add: set_range_order)
        qed
        moreover have "fst (resolve order inst (Suc n) deps' resolvers') \<le> Suc n + length deps'"
          using "1.IH"[OF \<open>deps \<noteq> []\<close> Inr res[symmetric] refl] True by simp
        ultimately show ?thesis
          using \<open>deps \<noteq> []\<close> Inr res True by (simp add: resolve.simps)
      qed
    qed
  qed
qed

text \<open>
  X1. The loop terminates: \<open>resolve\<close> is a total function, its termination proved with
  the measure \<open>length deps\<close>. For the dependency map that start builds from a
  configuration, whatever instantiating a node does and whatever the order of each pass:
  the loop runs at most as many passes as the configuration has groups and routers. A pass
  over a map that is not empty has one of three outcomes. It is cut short by the
  instantiation of a node, which has returned an error or has panicked (\<open>Inl err\<close>, the
  panic being \<open>IndexOutOfRange\<close>): the loop ends there. Or it has found a node and leaves
  a shorter map. Or it has found none, leaves the map as it was, and the loop ends with
  \<^verbatim>\<open>unable to resolve dependencies\<close>.
\<close>

theorem fixed_point_loop_bounded:
  assumes "group_deps (Groups config) [] = Inr deps0"
    and "router_deps (Routers config) deps0 = Inr deps"
  shows "fst (resolve order inst 0 deps resolvers)
           \<le> length (Groups config) + length (Routers config)
    \<and> (\<forall>n d rs. d \<noteq> [] \<longrightarrow>
          (case pass inst (range_order (order n) d) d rs False of
             Inl err \<Rightarrow> resolve order inst n d rs = (Suc n, Inl err)
           | Inr (d', rs', found) \<Rightarrow>
               if found then
                 length d' < length d
                 \<and> resolve order inst n d rs = resolve order inst (Suc n) d' rs'
               else
                 d' = d \<and> resolve order inst n d rs = (Suc n, Inl UnableToResolveDependencies)))"
proof (intro conjI allI impI)
  have "fst (resolve order inst 0 deps resolvers) \<le> 0 + length deps"
    by (rule resolve_passes)
  also have "\<dots> \<le> length (Groups config) + length (Routers config)"
    using deps_length[OF assms] by simp
  finally show "fst (resolve order inst 0 deps resolvers)
           \<le> length (Groups config) + length (Routers config)" .
next
  fix n d rs
  assume "d \<noteq> ([] :: deps)"
  then show "case pass inst (range_order (order n) d) d rs False of
             Inl err \<Rightarrow> resolve order inst n d rs = (Suc n, Inl err)
           | Inr (d', rs', found) \<Rightarrow>
               if found then
                 length d' < length d
                 \<and> resolve order inst n d rs = resolve order inst (Suc n) d' rs'
               else
                 d' = d \<and> resolve order inst n d rs = (Suc n, Inl UnableToResolveDependencies)"
  proof (cases "pass inst (range_order (order n) d) d rs False")
    case (Inl err)
    with \<open>d \<noteq> []\<close> show ?thesis by (simp add: resolve.simps[of order inst n d rs])
  next
    case (Inr res)
    obtain d' rs' found where res: "res = (d', rs', found)" by (cases res)
    show ?thesis
    proof (cases found)
      case True
      have "length d' < length d"
      proof (rule pass_found_length_less)
        show "pass inst (range_order (order n) d) d rs False = Inr (d', rs', True)"
          using Inr res True by simp
        show "fst ` set (range_order (order n) d) \<subseteq> fst ` set d"
          by (simp add: set_range_order)
      qed
      with \<open>d \<noteq> []\<close> Inr res True show ?thesis
        by (simp add: resolve.simps[of order inst n d rs])
    next
      case False
      with Inr res have "d' = d" by (auto dest: pass_not_found)
      with \<open>d \<noteq> []\<close> Inr res False show ?thesis
        by (simp add: resolve.simps[of order inst n d rs])
    qed
  qed
qed

text \<open>
  The group \<open>b\<close> over the group \<open>a\<close> over the resolver \<open>r\<close>, each pass visiting \<open>b\<close>
  before \<open>a\<close>: two groups, two passes.
\<close>

definition chain_config :: config where
  "chain_config =
     config_of [(''r'', resolver_at ''192.0.2.1:53'')]
       [(''a'', group_of ''round-robin'' [''r'']), (''b'', group_of ''round-robin'' [''a''])]
       [] []"

theorem fixed_point_loop_bounded_witness:
  "group_deps (Groups chain_config) [] = Inr [(''a'', [''r'']), (''b'', [''a''])]
   \<and> router_deps (Routers chain_config) [(''a'', [''r'']), (''b'', [''a''])]
       = Inr [(''a'', [''r'']), (''b'', [''a''])]
   \<and> fst (resolve (\<lambda>n. [''b'', ''a'']) (instantiate plain_stages chain_config) 0
             [(''a'', [''r'']), (''b'', [''a''])] [''r'' \<mapsto> Node ''resolver'' ''r'' [] []]) = 2
   \<and> fst (resolve (\<lambda>n. [''b'', ''a'']) (instantiate plain_stages chain_config) 0
             [(''a'', [''r'']), (''b'', [''a''])] [''r'' \<mapsto> Node ''resolver'' ''r'' [] []])
       \<le> length (Groups chain_config) + length (Routers chain_config)"
proof -
  have g: "group_deps (Groups chain_config) [] = Inr [(''a'', [''r'']), (''b'', [''a''])]"
    by (simp add: chain_config_def plain_defs opt_ref_def)
  have r: "router_deps (Routers chain_config) [(''a'', [''r'']), (''b'', [''a''])]
      = Inr [(''a'', [''r'']), (''b'', [''a''])]"
    by (simp add: chain_config_def plain_defs)
  have two: "fst (resolve (\<lambda>n. [''b'', ''a'']) (instantiate plain_stages chain_config) 0
             [(''a'', [''r'']), (''b'', [''a''])] [''r'' \<mapsto> Node ''resolver'' ''r'' [] []]) = 2"
    by (simp add: resolve.simps range_order_def instantiate_def instantiateGroup_def
          chain_config_def plain_defs)
  from fixed_point_loop_bounded [OF g r, of "\<lambda>n. [''b'', ''a'']"
      "instantiate plain_stages chain_config" "[''r'' \<mapsto> Node ''resolver'' ''r'' [] []]"]
  have "fst (resolve (\<lambda>n. [''b'', ''a'']) (instantiate plain_stages chain_config) 0
             [(''a'', [''r'']), (''b'', [''a''])] [''r'' \<mapsto> Node ''resolver'' ''r'' [] []])
       \<le> length (Groups chain_config) + length (Routers chain_config)"
    by (rule conjunct1)
  with g r two show ?thesis by simp
qed

subsection \<open>C6: a pass can panic, neither removing an entry nor returning an error\<close>

text \<open>
  C6. The claim is that each pass either removes at least one entry from the dependency
  map or returns an error. For the configuration whose only node is a cache group without
  resolvers, the first pass, in whatever order, does neither: the entry is ready, its
  instantiation panics on \<^verbatim>\<open>gr[0]\<close> (index out of range [0] with length 0), and start
  ends in that panic after one pass, no entry removed and no error returned. The case
  cache lacks the check of \<^verbatim>\<open>len(gr)\<close> that the other unary cases have.
\<close>

definition cache_config :: config where
  "cache_config = config_of [] [(''c'', group_of ''cache'' [])] [] []"

theorem pass_panics_without_progress:
  "group_deps (Groups cache_config) [] = Inr [(''c'', [])]
   \<and> router_deps (Routers cache_config) [(''c'', [])] = Inr [(''c'', [])]
   \<and> (\<forall>pri. pass (instantiate plain_stages cache_config) (range_order pri [(''c'', [])])
          [(''c'', [])] Map.empty False = Inl (IndexOutOfRange 0 0))
   \<and> is_panic (IndexOutOfRange 0 0)
   \<and> (\<forall>order. resolve order (instantiate plain_stages cache_config) 0 [(''c'', [])] Map.empty
          = (1, Inl (IndexOutOfRange 0 0)))
   \<and> (\<forall>order. returned (start (plain_loader cache_config) plain_stages plain_frontends order
          \<lparr>logLevel = 4\<rparr> [''config.toml'']) = Some (IndexOutOfRange 0 0))"
  by (simp add: cache_config_def start_defs plain_defs resolve.simps case_cache_def)

subsection \<open>The errors and the results of instantiateGroup\<close>

text \<open>
  The errors that the switch of instantiateGroup can return, and the panic of an index
  out of range; the missing-child error of the first loop is not among them.
\<close>

fun switch_error :: "error \<Rightarrow> bool" where
  "switch_error (External msg) = True"
| "switch_error (OnlyOneResolver kind id') = True"
| "switch_error (StaticBlocklistWithSource option id') = True"
| "switch_error (StaticAllowlistWithSource id') = True"
| "switch_error (InGroup id' err) = True"
| "switch_error (UnsupportedECSOp op) = True"
| "switch_error (UnsupportedEDNS0Op op) = True"
| "switch_error (UnsupportedGroupType kind id') = True"
| "switch_error (UnsupportedScheme scheme src) = True"
| "switch_error (UnsupportedFormat format) = True"
| "switch_error (IndexOutOfRange i n) = True"
| "switch_error e = False"

lemma index_Inl_iff: "index xs i = Inl e \<longleftrightarrow> \<not> i < length xs \<and> e = IndexOutOfRange i (length xs)"
  by (auto simp: index_def)

lemma newBlocklistDB_error: "newBlocklistDB R l rules = Inl e \<Longrightarrow> switch_error e"
  by (auto simp: newBlocklistDB_def and_then_Inl_iff ext_Inl_iff split: if_splits)

lemma newIPBlocklistDB_error: "newIPBlocklistDB R l loc rules = Inl e \<Longrightarrow> switch_error e"
  by (auto simp: newIPBlocklistDB_def and_then_Inl_iff ext_Inl_iff split: if_splits)

lemma source_dbs_error: "source_dbs new id' sources dbs = Inl e \<Longrightarrow> switch_error e"
  by (induction sources arbitrary: dbs) (auto split: sum.splits)

lemma name_db_error: "name_db R id' g rules sources = Inl e \<Longrightarrow> switch_error e"
  by (auto simp: name_db_def and_then_Inl_iff ext_Inl_iff split: if_splits
        dest: newBlocklistDB_error source_dbs_error)

lemma ip_db_error: "ip_db R id' g = Inl e \<Longrightarrow> switch_error e"
  by (auto simp: ip_db_def and_then_Inl_iff ext_Inl_iff split: if_splits
        dest: newIPBlocklistDB_error source_dbs_error)

lemmas case_defs =
  case_blocklist_def case_blocklist_v2_def case_replace_def case_ttl_modifier_def
  case_ecs_modifier_def case_edns0_modifier_def case_cache_def case_response_blocklist_ip_def
  case_response_blocklist_name_def case_client_blocklist_def case_static_responder_def
  case_response_minimize_def case_response_collapse_def case_rate_limiter_def

lemma case_errors:
  "case_blocklist R id' g gr rs = Inl e \<Longrightarrow> switch_error e"
  "case_blocklist_v2 R id' g gr rs = Inl e \<Longrightarrow> switch_error e"
  "case_replace R id' g gr rs = Inl e \<Longrightarrow> switch_error e"
  "case_ttl_modifier R id' g gr rs = Inl e \<Longrightarrow> switch_error e"
  "case_ecs_modifier R id' g gr rs = Inl e \<Longrightarrow> switch_error e"
  "case_edns0_modifier R id' g gr rs = Inl e \<Longrightarrow> switch_error e"
  "case_cache R id' g gr rs = Inl e \<Longrightarrow> switch_error e"
  "case_response_blocklist_ip R id' g gr rs = Inl e \<Longrightarrow> switch_error e"
  "case_response_blocklist_name R id' g gr rs = Inl e \<Longrightarrow> switch_error e"
  "case_client_blocklist R id' g gr rs = Inl e \<Longrightarrow> switch_error e"
  "case_static_responder R id' g rs = Inl e \<Longrightarrow> switch_error e"
  "case_response_minimize R id' gr rs = Inl e \<Longrightarrow> switch_error e"
  "case_response_collapse R id' g gr rs = Inl e \<Longrightarrow> switch_error e"
  "case_rate_limiter R id' g gr rs = Inl e \<Longrightarrow> switch_error e"
  by (auto simp: case_defs and_then_Inl_iff ext_Inl_iff index_Inl_iff split: if_splits
        dest: newBlocklistDB_error name_db_error ip_db_error)

lemma case_results:
  "case_blocklist R id' g gr rs = Inr rs' \<Longrightarrow> \<exists>x. rs' = rs(id' \<mapsto> x)"
  "case_blocklist_v2 R id' g gr rs = Inr rs' \<Longrightarrow> \<exists>x. rs' = rs(id' \<mapsto> x)"
  "case_replace R id' g gr rs = Inr rs' \<Longrightarrow> \<exists>x. rs' = rs(id' \<mapsto> x)"
  "case_ttl_modifier R id' g gr rs = Inr rs' \<Longrightarrow> \<exists>x. rs' = rs(id' \<mapsto> x)"
  "case_ecs_modifier R id' g gr rs = Inr rs' \<Longrightarrow> \<exists>x. rs' = rs(id' \<mapsto> x)"
  "case_edns0_modifier R id' g gr rs = Inr rs' \<Longrightarrow> \<exists>x. rs' = rs(id' \<mapsto> x)"
  "case_cache R id' g gr rs = Inr rs' \<Longrightarrow> \<exists>x. rs' = rs(id' \<mapsto> x)"
  "case_response_blocklist_ip R id' g gr rs = Inr rs' \<Longrightarrow> \<exists>x. rs' = rs(id' \<mapsto> x)"
  "case_response_blocklist_name R id' g gr rs = Inr rs' \<Longrightarrow> \<exists>x. rs' = rs(id' \<mapsto> x)"
  "case_client_blocklist R id' g gr rs = Inr rs' \<Longrightarrow> \<exists>x. rs' = rs(id' \<mapsto> x)"
  "case_static_responder R id' g rs = Inr rs' \<Longrightarrow> \<exists>x. rs' = rs(id' \<mapsto> x)"
  "case_response_minimize R id' gr rs = Inr rs' \<Longrightarrow> \<exists>x. rs' = rs(id' \<mapsto> x)"
  "case_response_collapse R id' g gr rs = Inr rs' \<Longrightarrow> \<exists>x. rs' = rs(id' \<mapsto> x)"
  "case_rate_limiter R id' g gr rs = Inr rs' \<Longrightarrow> \<exists>x. rs' = rs(id' \<mapsto> x)"
  by (auto simp: case_defs and_then_Inr_iff split: if_splits)

lemma instantiateGroup_error:
  assumes "instantiateGroup R id' g rs = Inl e"
  shows "(\<exists>rid \<in> set (group.Resolvers g). rs rid = None \<and> e = GroupMissingResolver id' rid)
     \<or> ((\<forall>rid \<in> set (group.Resolvers g). rs rid \<noteq> None) \<and> switch_error e)"
proof (cases "find (\<lambda>rid. rs rid = None) (group.Resolvers g)")
  case None
  then have all: "\<forall>rid \<in> set (group.Resolvers g). rs rid \<noteq> None"
    by (simp add: find_None_iff)
  from assms None have "switch_error e"
    by (auto simp: instantiateGroup_def group_resolvers_eq split: if_splits dest: case_errors)
  with all show ?thesis by simp
next
  case (Some rid)
  then have "rid \<in> set (group.Resolvers g)" "rs rid = None"
    by (auto simp: find_Some_iff)
  moreover from assms Some have "e = GroupMissingResolver id' rid"
    by (simp add: instantiateGroup_def group_resolvers_eq)
  ultimately show ?thesis by blast
qed

lemma instantiateGroup_result:
  "instantiateGroup R id' g rs = Inr rs' \<Longrightarrow> \<exists>x. rs' = rs(id' \<mapsto> x)"
  by (auto simp: instantiateGroup_def and_then_Inr_iff split: if_splits dest: case_results)

lemma switch_error_distinct:
  "switch_error e \<Longrightarrow>
     e \<noteq> GroupMissingResolver i rid \<and> e \<noteq> RouterMissingResolver i rid
     \<and> e \<noteq> InvalidLogLevel l \<and> e \<noteq> UnableToResolveDependencies"
  by (cases e) auto

lemma add_routes_error:
  "add_routes R id' routes rs router = Inl e \<Longrightarrow>
     (\<exists>route \<in> set routes. rs (route.Resolver route) = None
        \<and> e = RouterMissingResolver id' (route.Resolver route))
     \<or> (\<exists>err. e = RouteFailed id' (External err))"
  by (induction routes arbitrary: router) (auto split: option.splits sum.splits)

lemma instantiateRouter_error:
  "instantiateRouter R id' r rs = Inl e \<Longrightarrow>
     (\<exists>route \<in> set (Routes r). rs (route.Resolver route) = None
        \<and> e = RouterMissingResolver id' (route.Resolver route))
     \<or> (\<exists>err. e = RouteFailed id' (External err))"
  by (auto simp: instantiateRouter_def and_then_Inl_iff dest: add_routes_error)

lemma instantiateRouter_result:
  "instantiateRouter R id' r rs = Inr rs' \<Longrightarrow> \<exists>x. rs' = rs(id' \<mapsto> x)"
  by (auto simp: instantiateRouter_def and_then_Inr_iff)

lemma instantiate_dom:
  assumes "instantiate R config id' rs = Inr rs'"
  shows "dom rs \<subseteq> dom rs' \<and> dom rs' \<subseteq> insert id' (dom rs)"
proof -
  from assms obtain rs1 where
    g: "(case map_of (Groups config) id' of
          Some g \<Rightarrow> instantiateGroup R id' g rs | None \<Rightarrow> Inr rs) = Inr rs1"
    and r: "(case map_of (Routers config) id' of
          Some r \<Rightarrow> instantiateRouter R id' r rs1 | None \<Rightarrow> Inr rs1) = Inr rs'"
    by (auto simp: instantiate_def and_then_Inr_iff)
  from g have "rs1 = rs \<or> (\<exists>x. rs1 = rs(id' \<mapsto> x))"
    by (auto split: option.splits dest: instantiateGroup_result)
  moreover from r have "rs' = rs1 \<or> (\<exists>x. rs' = rs1(id' \<mapsto> x))"
    by (auto split: option.splits dest: instantiateRouter_result)
  ultimately show ?thesis by auto
qed

lemma instantiate_error:
  assumes "instantiate R config id' rs = Inl e"
    and refs: "node_refs config id' \<subseteq> dom rs"
  shows "switch_error e \<or> (\<exists>err. e = RouteFailed id' (External err))"
proof -
  from assms(1) consider
    (g) g where "map_of (Groups config) id' = Some g" "instantiateGroup R id' g rs = Inl e"
    | (r) rs1 r where "(case map_of (Groups config) id' of
          Some g \<Rightarrow> instantiateGroup R id' g rs | None \<Rightarrow> Inr rs) = Inr rs1"
        "map_of (Routers config) id' = Some r" "instantiateRouter R id' r rs1 = Inl e"
    by (auto simp: instantiate_def and_then_Inl_iff split: option.splits)
  then show ?thesis
  proof cases
    case g
    from g(1) refs have "\<forall>rid \<in> set (group.Resolvers g). rs rid \<noteq> None"
      by (auto simp: node_refs_def)
    with instantiateGroup_error[OF g(2)] show ?thesis by auto
  next
    case r
    from r(1) have "dom rs \<subseteq> dom rs1"
      by (auto split: option.splits dest: instantiateGroup_result)
    moreover from r(2) refs have "route.Resolver ` set (Routes r) \<subseteq> dom rs"
      by (simp add: node_refs_def)
    ultimately have "route.Resolver ` set (Routes r) \<subseteq> dom rs1" by blast
    then have "\<forall>route \<in> set (Routes r). rs1 (route.Resolver route) \<noteq> None"
      by blast
    with instantiateRouter_error[OF r(3)] show ?thesis by auto
  qed
qed

subsection \<open>What a pass calls, and what the loop returns\<close>

text \<open>
  A pass calls \<open>inst\<close> on an entry only when the resolver map holds every dependency of
  the entry: nothing else of \<open>inst\<close> matters to the pass, nor to the loop, and an error of
  the loop other than \<^verbatim>\<open>unable to resolve dependencies\<close> is the error of such a call.
\<close>

lemma pass_subset:
  "pass inst entries deps rs found = Inr (deps', rs', found') \<Longrightarrow> set deps' \<subseteq> set deps"
proof (induction entries arbitrary: deps rs found)
  case Nil
  then show ?case by simp
next
  case (Cons e entries)
  obtain k ds where e: "e = (k, ds)" by (cases e)
  show ?case
  proof (cases "\<exists>depID \<in> set ds. rs depID = None")
    case True
    with Cons.prems e have "pass inst entries deps rs found = Inr (deps', rs', found')"
      by simp
    then show ?thesis by (rule Cons.IH)
  next
    case False
    with Cons.prems e obtain rs1 where
      "pass inst entries (AList.delete k deps) rs1 True = Inr (deps', rs', found')"
      by (auto split: sum.splits)
    then have "set deps' \<subseteq> set (AList.delete k deps)" by (rule Cons.IH)
    then show ?thesis by (auto simp: AList.delete_eq)
  qed
qed

lemma pass_cong:
  assumes "\<And>id' ds rs'. (id', ds) \<in> set entries \<Longrightarrow> set ds \<subseteq> dom rs'
      \<Longrightarrow> inst' id' rs' = inst id' rs'"
  shows "pass inst' entries deps rs found = pass inst entries deps rs found"
  using assms
proof (induction entries arbitrary: deps rs found)
  case Nil
  then show ?case by simp
next
  case (Cons e entries)
  obtain k ds where e: "e = (k, ds)" by (cases e)
  have IH: "pass inst' entries d r f = pass inst entries d r f" for d r f
    by (rule Cons.IH) (auto intro: Cons.prems)
  show ?case
  proof (cases "\<exists>depID \<in> set ds. rs depID = None")
    case True
    with e IH show ?thesis by simp
  next
    case False
    then have "set ds \<subseteq> dom rs" by auto
    then have "inst' k rs = inst k rs" using e by (intro Cons.prems) auto
    with False e IH show ?thesis by (auto split: sum.splits)
  qed
qed

lemma resolve_cong:
  fixes inst' :: "string \<Rightarrow> (string \<rightharpoonup> 'r) \<Rightarrow> error + (string \<rightharpoonup> 'r)"
  assumes "\<And>id' ds rs'. (id', ds) \<in> set deps \<Longrightarrow> set ds \<subseteq> dom rs'
      \<Longrightarrow> inst' id' rs' = inst id' rs'"
  shows "resolve order inst' n deps rs = resolve order inst n deps rs"
  using assms
proof (induction order inst n deps rs rule: resolve.induct)
  case (1 order inst n deps rs)
  show ?case
  proof (cases "deps = []")
    case True
    then show ?thesis by (simp add: resolve.simps)
  next
    case False
    have p: "pass inst' (range_order (order n) deps) deps rs False
        = pass inst (range_order (order n) deps) deps rs False"
      by (rule pass_cong) (auto simp: set_range_order intro: "1.prems")
    show ?thesis
    proof (cases "pass inst (range_order (order n) deps) deps rs False")
      case (Inl err)
      with False p show ?thesis
        by (simp add: resolve.simps[of _ _ _ deps])
    next
      case (Inr res)
      obtain deps' rs' found where res: "res = (deps', rs', found)" by (cases res)
      show ?thesis
      proof (cases found)
        case False
        with \<open>deps \<noteq> []\<close> p Inr res show ?thesis
          by (simp add: resolve.simps[of _ _ _ deps])
      next
        case True
        have sub: "set deps' \<subseteq> set deps"
          using Inr res by (auto dest: pass_subset)
        have "resolve order inst' (Suc n) deps' rs' = resolve order inst (Suc n) deps' rs'"
        proof (rule "1.IH"[OF \<open>deps \<noteq> []\<close> Inr res[symmetric] refl])
          show "\<not> \<not> found" using True by simp
        next
          fix id' ds and rs'' :: "string \<rightharpoonup> 'r"
          assume "(id', ds) \<in> set deps'" and "set ds \<subseteq> dom rs''"
          with sub show "inst' id' rs'' = inst id' rs''"
            by (intro "1.prems") auto
        qed
        with \<open>deps \<noteq> []\<close> p Inr res True show ?thesis
          by (simp add: resolve.simps[of _ _ _ deps])
      qed
    qed
  qed
qed

lemma pass_error:
  "pass inst entries deps rs found = Inl e \<Longrightarrow>
     \<exists>(id', ds) \<in> set entries. \<exists>rs'. set ds \<subseteq> dom rs' \<and> inst id' rs' = Inl e"
proof (induction entries arbitrary: deps rs found)
  case Nil
  then show ?case by simp
next
  case (Cons e0 entries)
  obtain k ds where e0: "e0 = (k, ds)" by (cases e0)
  show ?case
  proof (cases "\<exists>depID \<in> set ds. rs depID = None")
    case True
    with Cons.prems e0 have "pass inst entries deps rs found = Inl e" by simp
    from Cons.IH[OF this] show ?thesis by auto
  next
    case False
    then have sub: "set ds \<subseteq> dom rs" by auto
    show ?thesis
    proof (cases "inst k rs")
      case (Inl err)
      with Cons.prems e0 False have "err = e" by simp
      with Inl sub e0 show ?thesis by auto
    next
      case (Inr rs1)
      with Cons.prems e0 False
      have "pass inst entries (AList.delete k deps) rs1 True = Inl e" by simp
      from Cons.IH[OF this] show ?thesis by auto
    qed
  qed
qed

lemma resolve_error:
  "snd (resolve order inst n deps rs) = Inl e \<Longrightarrow>
     e = UnableToResolveDependencies
     \<or> (\<exists>(id', ds) \<in> set deps. \<exists>rs'. set ds \<subseteq> dom rs' \<and> inst id' rs' = Inl e)"
proof (induction order inst n deps rs rule: resolve.induct)
  case (1 order inst n deps rs)
  from "1.prems" have ne: "deps \<noteq> []" by (auto simp: resolve.simps[of _ _ _ "[]"])
  show ?case
  proof (cases "pass inst (range_order (order n) deps) deps rs False")
    case (Inl err)
    with ne "1.prems" have "err = e" by (simp add: resolve.simps[of _ _ _ deps])
    with pass_error[OF Inl] show ?thesis by (auto simp: set_range_order)
  next
    case (Inr res)
    obtain deps' rs' found where res: "res = (deps', rs', found)" by (cases res)
    show ?thesis
    proof (cases found)
      case False
      with ne Inr res "1.prems" show ?thesis by (simp add: resolve.simps[of _ _ _ deps])
    next
      case True
      have sub: "set deps' \<subseteq> set deps"
        using Inr res by (auto dest: pass_subset)
      from ne Inr res True "1.prems"
      have "snd (resolve order inst (Suc n) deps' rs') = Inl e"
        by (simp add: resolve.simps[of _ _ _ deps])
      from "1.IH"[OF ne Inr res[symmetric] refl _ this] True sub show ?thesis
        by auto
    qed
  qed
qed

subsection \<open>The steps of start\<close>

text \<open>
  The errors of each step, and the run of start split at the step that ends it: the log
  level, the configuration, the bootstrap resolver, the assembly of the resolver map, the
  listeners.
\<close>

lemma config_resolvers_error:
  "config_resolvers M rs acc = Inl e \<Longrightarrow>
     (\<exists>i. e = DuplicateResolverId i) \<or> (\<exists>i err. e = ResolverFailed i (External err))"
  by (induction rs arbitrary: acc) (auto split: if_splits sum.splits)

lemma config_resolvers_dom:
  "config_resolvers M rs acc = Inr rs' \<Longrightarrow> dom rs' = dom acc \<union> fst ` set rs"
proof (induction rs arbitrary: acc)
  case Nil
  then show ?case by simp
next
  case (Cons e rs)
  obtain k r where e: "e = (k, r)" by (cases e)
  from Cons.prems e obtain x where
    "config_resolvers M rs (acc(k \<mapsto> x)) = Inr rs'"
    by (auto split: if_splits sum.splits)
  from Cons.IH[OF this] e show ?case by auto
qed

lemma group_deps_error: "group_deps groups deps = Inl e \<Longrightarrow> \<exists>i. e = DuplicateName i"
  by (induction groups arbitrary: deps) (auto split: if_splits)

lemma router_deps_error: "router_deps routers deps = Inl e \<Longrightarrow> \<exists>i. e = DuplicateName i"
  by (induction routers arbitrary: deps) (auto split: if_splits)

lemma bootstrap_error:
  "bootstrap M config = Inl e \<Longrightarrow> \<exists>err. e = BootstrapFailed (External err)"
  by (auto simp: bootstrap_def split: if_splits sum.splits)

lemma new_listener_error:
  "new_listener S rs id' l = Inl e \<Longrightarrow>
     (rs (listener.Resolver l) = None \<and> listener.Protocol l \<noteq> ''admin''
        \<and> e = ListenerMissingResolver id' (listener.Resolver l))
     \<or> (\<exists>err. e = External err)
     \<or> (\<exists>err. e = TrustedProxyFailed id' (frontend.HTTPProxyNet (Frontend l)) (External err))
     \<or> e = UnsupportedProtocol (listener.Protocol l) id'"
  by (auto simp: new_listener_def Let_def and_then_Inl_iff ext_Inl_iff
        split: if_splits sum.splits)

lemma build_listeners_error:
  "snd (build_listeners S rs ls acc) = Some e \<Longrightarrow>
     \<exists>(id', l) \<in> set ls. new_listener S rs id' l = Inl e"
  by (induction ls arbitrary: acc) (auto split: sum.splits)

lemma assemble_cases:
  assumes "assemble M R order config = res"
  obtains
    (resolvers) e where "config_resolvers M (config.Resolvers config) Map.empty = Inl e"
      "res = Inl e"
  | (groups) rs0 e where "config_resolvers M (config.Resolvers config) Map.empty = Inr rs0"
      "group_deps (Groups config) [] = Inl e" "res = Inl e"
  | (routers) rs0 deps0 e where
      "config_resolvers M (config.Resolvers config) Map.empty = Inr rs0"
      "group_deps (Groups config) [] = Inr deps0"
      "router_deps (Routers config) deps0 = Inl e" "res = Inl e"
  | (loop) rs0 deps0 deps where
      "config_resolvers M (config.Resolvers config) Map.empty = Inr rs0"
      "group_deps (Groups config) [] = Inr deps0"
      "router_deps (Routers config) deps0 = Inr deps"
      "res = snd (resolve order (instantiate R config) 0 deps rs0)"
proof (cases "config_resolvers M (config.Resolvers config) Map.empty")
  case (Inl e)
  with assms show ?thesis by (intro resolvers[of e]) (simp_all add: assemble_def)
next
  case rs0: (Inr rs0)
  show ?thesis
  proof (cases "group_deps (Groups config) []")
    case (Inl e)
    with assms rs0 show ?thesis by (intro groups[of rs0 e]) (simp_all add: assemble_def)
  next
    case d0: (Inr deps0)
    show ?thesis
    proof (cases "router_deps (Routers config) deps0")
      case (Inl e)
      with assms rs0 d0 show ?thesis
        by (intro routers[of rs0 deps0 e]) (simp_all add: assemble_def)
    next
      case (Inr deps)
      with assms rs0 d0 show ?thesis
        by (intro loop[of rs0 deps0 deps]) (simp_all add: assemble_def)
    qed
  qed
qed

lemma assemble_error:
  assumes "assemble M R order config = Inl e"
  shows "(\<exists>i. e = DuplicateResolverId i) \<or> (\<exists>i err. e = ResolverFailed i (External err))
     \<or> (\<exists>i. e = DuplicateName i) \<or> e = UnableToResolveDependencies
     \<or> (\<exists>id' rs. node_refs config id' \<subseteq> dom rs \<and> instantiate R config id' rs = Inl e)"
  using assms
proof (cases rule: assemble_cases)
  case (resolvers e')
  then show ?thesis using config_resolvers_error[of M _ _ e] by auto
next
  case (groups rs0 e')
  then show ?thesis using group_deps_error[of _ _ e] by auto
next
  case (routers rs0 deps0 e')
  then show ?thesis using router_deps_error[of _ _ e] by auto
next
  case (loop rs0 deps0 deps)
  from resolve_error[OF loop(4)[symmetric]] show ?thesis
  proof
    assume "e = UnableToResolveDependencies"
    then show ?thesis by simp
  next
    assume "\<exists>(id', ds) \<in> set deps. \<exists>rs'. set ds \<subseteq> dom rs'
        \<and> instantiate R config id' rs' = Inl e"
    then obtain id' ds rs' where e: "(id', ds) \<in> set deps" "set ds \<subseteq> dom rs'"
        "instantiate R config id' rs' = Inl e"
      by auto
    from deps_covers[OF loop(2,3) e(1)] e(2) have "node_refs config id' \<subseteq> dom rs'" by simp
    with e(3) show ?thesis by blast
  qed
qed

lemma start_cases:
  obtains
    (level) "6 < logLevel opt"
      "start M R S order opt args = idle\<lparr>returned := Some (InvalidLogLevel (logLevel opt))\<rparr>"
  | (load) msg where "logLevel opt \<le> 6" "loadConfig M args = Inl msg"
      "start M R S order opt args
         = idle\<lparr>log_level := Some (logLevel opt), returned := Some (External msg)\<rparr>"
  | (boot) config e where "logLevel opt \<le> 6" "loadConfig M args = Inr config"
      "bootstrap M config = Inl e"
      "start M R S order opt args
         = idle\<lparr>log_level := Some (logLevel opt), returned := Some e\<rparr>"
  | (assemble) config b e where "logLevel opt \<le> 6" "loadConfig M args = Inr config"
      "bootstrap M config = Inr b" "assemble M R order config = Inl e"
      "start M R S order opt args
         = idle\<lparr>log_level := Some (logLevel opt), default_resolver := b,
                 returned := Some e\<rparr>"
  | (listeners) config b rs where "logLevel opt \<le> 6" "loadConfig M args = Inr config"
      "bootstrap M config = Inr b" "assemble M R order config = Inr rs"
      "start M R S order opt args =
         (case build_listeners S rs (Listeners config) [] of
            (listeners, Some e) \<Rightarrow>
              idle\<lparr>log_level := Some (logLevel opt), default_resolver := b,
                    constructed := listeners, returned := Some e\<rparr>
          | (listeners, None) \<Rightarrow>
              idle\<lparr>log_level := Some (logLevel opt), default_resolver := b,
                    constructed := listeners, started := listeners\<rparr>)"
proof (cases "6 < logLevel opt")
  case True
  then show ?thesis by (intro level) (simp_all add: start_def)
next
  case lv: False
  then have le: "logLevel opt \<le> 6" by simp
  show ?thesis
  proof (cases "loadConfig M args")
    case (Inl msg)
    with lv le show ?thesis by (intro load[of msg]) (simp_all add: start_def Let_def)
  next
    case cfg: (Inr config)
    show ?thesis
    proof (cases "bootstrap M config")
      case (Inl e)
      with lv le cfg show ?thesis by (intro boot[of config e]) (simp_all add: start_def Let_def)
    next
      case b: (Inr b)
      show ?thesis
      proof (cases "assemble M R order config")
        case (Inl e)
        with lv le cfg b show ?thesis
          by (intro assemble[of config b e]) (simp_all add: start_def Let_def)
      next
        case (Inr rs)
        with lv le cfg b show ?thesis
          by (intro listeners[of config b rs])
            (simp_all add: start_def Let_def split: prod.splits option.splits)
      qed
    qed
  qed
qed

lemma start_returned:
  assumes "returned (start M R S order opt args) = Some e"
  shows "(6 < logLevel opt \<and> e = InvalidLogLevel (logLevel opt))
     \<or> (\<exists>msg. e = External msg)
     \<or> (\<exists>err. e = BootstrapFailed (External err))
     \<or> (\<exists>config. loadConfig M args = Inr config \<and> assemble M R order config = Inl e)
     \<or> (\<exists>config rs. loadConfig M args = Inr config \<and> assemble M R order config = Inr rs
          \<and> (\<exists>(id', l) \<in> set (Listeners config). new_listener S rs id' l = Inl e))"
proof (cases rule: start_cases[of opt M R S order args])
  case level
  with assms show ?thesis by (auto simp: idle_def)
next
  case (load msg)
  with assms show ?thesis by (auto simp: idle_def)
next
  case (boot config e')
  with assms bootstrap_error[of M config e'] show ?thesis by (auto simp: idle_def)
next
  case (assemble config b e')
  with assms show ?thesis by (auto simp: idle_def)
next
  case (listeners config b rs)
  obtain ls err where bl: "build_listeners S rs (Listeners config) [] = (ls, err)"
    by (cases "build_listeners S rs (Listeners config) []")
  with listeners(5) assms have "err = Some e"
    by (cases err) (simp_all add: idle_def)
  with bl have "snd (build_listeners S rs (Listeners config) []) = Some e" by simp
  from build_listeners_error[OF this] listeners(2,4) show ?thesis by blast
qed

lemma start_not_missing_child:
  "returned (start M R S order opt args) \<noteq> Some (GroupMissingResolver i rid)
   \<and> returned (start M R S order opt args) \<noteq> Some (RouterMissingResolver i rid)"
proof -
  have "e \<noteq> GroupMissingResolver i rid \<and> e \<noteq> RouterMissingResolver i rid"
    if "returned (start M R S order opt args) = Some e" for e
    using start_returned[OF that]
  proof (elim disjE exE conjE)
    fix config
    assume "assemble M R order config = Inl e"
    from assemble_error[OF this] show ?thesis
      by (auto dest!: instantiate_error dest: switch_error_distinct)
  next
    fix config rs
    assume "\<exists>(id', l) \<in> set (Listeners config). new_listener S rs id' l = Inl e"
    then show ?thesis by (auto dest!: new_listener_error)
  qed auto
  then show ?thesis by blast
qed

subsection \<open>C2: a node is instantiated only when all its references are present\<close>

text \<open>
  C2. For every run of start: the error \<^verbatim>\<open>group ... references non-existant resolver or
  group\<close> of instantiateGroup and the error \<^verbatim>\<open>router ... references non-existant resolver
  or group\<close> of instantiateRouter are never returned. For the dependency map that start
  builds from a configuration: the entry of a node lists every id the node references (the
  children of a group, its blocklist, allowlist and limit resolvers, the resolvers of the
  routes of a router); and the loop instantiates a node only on a resolver map that holds
  all of them, that is, the loop runs the same with any other function that does what
  \<open>instantiate\<close> does on such resolver maps, whatever it does on the others.
\<close>

theorem references_present_when_instantiated:
  "returned (start M R S order opt args) \<noteq> Some (GroupMissingResolver i rid)
   \<and> returned (start M R S order opt args) \<noteq> Some (RouterMissingResolver i rid)
   \<and> (\<forall>deps0 deps. group_deps (Groups config) [] = Inr deps0
          \<longrightarrow> router_deps (Routers config) deps0 = Inr deps
          \<longrightarrow> (\<forall>(id', ds) \<in> set deps. node_refs config id' \<subseteq> set ds)
            \<and> (\<forall>inst' n rs0.
                  (\<forall>id' rs. node_refs config id' \<subseteq> dom rs
                     \<longrightarrow> inst' id' rs = instantiate R config id' rs)
                  \<longrightarrow> resolve order inst' n deps rs0
                      = resolve order (instantiate R config) n deps rs0))"
proof (intro conjI allI impI)
  fix deps0 deps inst' n and rs0 :: "string \<rightharpoonup> 'a"
  assume g: "group_deps (Groups config) [] = Inr deps0"
    and r: "router_deps (Routers config) deps0 = Inr deps"
  show "\<forall>(id', ds) \<in> set deps. node_refs config id' \<subseteq> set ds"
    using deps_covers[OF g r] by auto
  assume agree: "\<forall>id' rs. node_refs config id' \<subseteq> dom rs
      \<longrightarrow> inst' id' rs = instantiate R config id' rs"
  show "resolve order inst' n deps rs0 = resolve order (instantiate R config) n deps rs0"
  proof (rule resolve_cong)
    fix id' ds and rs' :: "string \<rightharpoonup> 'a"
    assume "(id', ds) \<in> set deps" and "set ds \<subseteq> dom rs'"
    with deps_covers[OF g r] have "node_refs config id' \<subseteq> dom rs'" by blast
    with agree show "inst' id' rs' = instantiate R config id' rs'" by simp
  qed
qed (simp_all add: start_not_missing_child)

theorem references_present_when_instantiated_witness:
  "group_deps (Groups chain_config) [] = Inr [(''a'', [''r'']), (''b'', [''a''])]
   \<and> router_deps (Routers chain_config) [(''a'', [''r'']), (''b'', [''a''])]
       = Inr [(''a'', [''r'']), (''b'', [''a''])]
   \<and> node_refs chain_config ''b'' \<subseteq> set [''a'']
   \<and> returned (start (plain_loader chain_config) plain_stages plain_frontends
         (\<lambda>n. [''b'', ''a'']) \<lparr>logLevel = 4\<rparr> [''config.toml''])
       \<noteq> Some (GroupMissingResolver ''b'' ''a'')
   \<and> resolve (\<lambda>n. [''b'', ''a''])
         (\<lambda>id' rs. if node_refs chain_config id' \<subseteq> dom rs
            then instantiate plain_stages chain_config id' rs
            else Inl (GroupMissingResolver id' []))
         0 [(''a'', [''r'']), (''b'', [''a''])] [''r'' \<mapsto> Node ''resolver'' ''r'' [] []]
       = resolve (\<lambda>n. [''b'', ''a'']) (instantiate plain_stages chain_config)
           0 [(''a'', [''r'']), (''b'', [''a''])] [''r'' \<mapsto> Node ''resolver'' ''r'' [] []]"
proof -
  have g: "group_deps (Groups chain_config) [] = Inr [(''a'', [''r'']), (''b'', [''a''])]"
    by (simp add: chain_config_def plain_defs opt_ref_def)
  have r: "router_deps (Routers chain_config) [(''a'', [''r'']), (''b'', [''a''])]
      = Inr [(''a'', [''r'']), (''b'', [''a''])]"
    by (simp add: chain_config_def plain_defs)
  note t = references_present_when_instantiated [of "plain_loader chain_config" plain_stages
      plain_frontends "\<lambda>n. [''b'', ''a'']" "\<lparr>logLevel = 4\<rparr>" "[''config.toml'']"
      "''b''" "''a''" chain_config]
  note ne = conjunct1 [OF t]
  note t3 = conjunct2 [OF conjunct2 [OF t], rule_format, OF g r]
  from conjunct1 [OF t3] have sub: "node_refs chain_config ''b'' \<subseteq> set [''a'']"
    by simp
  have eq: "resolve (\<lambda>n. [''b'', ''a''])
         (\<lambda>id' rs. if node_refs chain_config id' \<subseteq> dom rs
            then instantiate plain_stages chain_config id' rs
            else Inl (GroupMissingResolver id' []))
         0 [(''a'', [''r'']), (''b'', [''a''])] [''r'' \<mapsto> Node ''resolver'' ''r'' [] []]
       = resolve (\<lambda>n. [''b'', ''a'']) (instantiate plain_stages chain_config)
           0 [(''a'', [''r'']), (''b'', [''a''])] [''r'' \<mapsto> Node ''resolver'' ''r'' [] []]"
    by (rule conjunct2 [OF t3, rule_format]) simp
  from g r sub ne eq show ?thesis by blast
qed

subsection \<open>C10: the log level is checked before anything else\<close>



end
